theory Spec2Isabelle
  imports Complex_Main
begin

section \<open>Numbers, vectors and failures\<close>

text \<open>
  The wavelet routines of \<^verbatim>\<open>build_file.cpp\<close> work on Armadillo vectors of doubles.
  A vector is a list of reals: double arithmetic is read as exact real arithmetic
  (no rounding, no overflow).  The places where the source leaves the reals are
  written out: a division that IEEE arithmetic answers with not-a-number or an
  infinity yields a \<open>dbl\<close> that says so, a bounds-checked Armadillo access outside
  the vector is a failure, and a conversion from double to a 32-bit integer of a
  value that the integer cannot hold (undefined in C++) is a failure of its own.
\<close>

datatype error =
    UnsupportedFilter
  | UnsupportedBoundary
  | InvalidDecomposition
  | UnsupportedCIType
  | OutOfBounds
  | UndefinedConversion

datatype dbl = Val real | PInf | MInf | NaN

definition bindE :: "error + 'a \<Rightarrow> ('a \<Rightarrow> error + 'b) \<Rightarrow> error + 'b" where
  "bindE m f = (case m of Inl e \<Rightarrow> Inl e | Inr v \<Rightarrow> f v)"

primrec mapE :: "('a \<Rightarrow> error + 'b) \<Rightarrow> 'a list \<Rightarrow> error + 'b list" where
  "mapE f [] = Inr []"
| "mapE f (x # xs) = bindE (f x) (\<lambda>y. bindE (mapE f xs) (\<lambda>ys. Inr (y # ys)))"

text \<open>
  \<open>x(i)\<close> on an Armadillo vector checks the index; an \<open>int\<close> index is converted to the
  unsigned index type first, so a negative one is out of range as well.
\<close>

definition elem :: "'a list \<Rightarrow> int \<Rightarrow> error + 'a" where
  "elem x i = (if 0 \<le> i \<and> i < int (length x) then Inr (x ! nat i) else Inl OutOfBounds)"

text \<open>
  \<open>x.rows(r1, r2)\<close> is the sub-vector of the rows \<open>r1..r2\<close>, both included.  Armadillo
  refuses \<open>r1 > r2\<close> and \<open>r2 \<ge> n_rows\<close> ("indices out of bounds or incorrectly used"),
  so it cannot describe an empty range.
\<close>

definition rows :: "nat \<Rightarrow> nat \<Rightarrow> 'a list \<Rightarrow> error + 'a list" where
  "rows r1 r2 x =
     (if r1 > r2 \<or> r2 \<ge> length x then Inl OutOfBounds
      else Inr (take (r2 - r1 + 1) (drop r1 x)))"

text \<open>\<open>n - 1\<close> on an \<open>unsigned int\<close>: zero wraps around to \<open>2^32 - 1\<close>.\<close>

definition usub1 :: "nat \<Rightarrow> nat" where
  "usub1 n = (if n = 0 then 2 ^ 32 - 1 else n - 1)"

text \<open>
  A double stored into an \<open>unsigned int\<close> is truncated towards zero; outside the
  open interval from \<open>-1\<close> to \<open>2^32\<close> the conversion is undefined.
\<close>

definition to_uint :: "real \<Rightarrow> error + nat" where
  "to_uint v = (if - 1 < v \<and> v < 2 ^ 32 then Inr (nat \<lfloor>v\<rfloor>) else Inl UndefinedConversion)"

subsection \<open>IEEE results of the four operations and the square root\<close>

text \<open>Zero carries no sign here: a non-zero value divided by zero takes the sign of the dividend.\<close>

fun dneg :: "dbl \<Rightarrow> dbl" where
  "dneg (Val a) = Val (- a)"
| "dneg PInf = MInf"
| "dneg MInf = PInf"
| "dneg NaN = NaN"

fun dmul :: "dbl \<Rightarrow> dbl \<Rightarrow> dbl" where
  "dmul (Val a) (Val b) = Val (a * b)"
| "dmul NaN _ = NaN"
| "dmul _ NaN = NaN"
| "dmul (Val a) PInf = (if a = 0 then NaN else if 0 < a then PInf else MInf)"
| "dmul (Val a) MInf = (if a = 0 then NaN else if 0 < a then MInf else PInf)"
| "dmul PInf (Val b) = (if b = 0 then NaN else if 0 < b then PInf else MInf)"
| "dmul MInf (Val b) = (if b = 0 then NaN else if 0 < b then MInf else PInf)"
| "dmul PInf PInf = PInf"
| "dmul PInf MInf = MInf"
| "dmul MInf PInf = MInf"
| "dmul MInf MInf = PInf"

fun ddiv :: "dbl \<Rightarrow> dbl \<Rightarrow> dbl" where
  "ddiv (Val a) (Val b) =
     (if b \<noteq> 0 then Val (a / b)
      else if a = 0 then NaN else if 0 < a then PInf else MInf)"
| "ddiv NaN _ = NaN"
| "ddiv _ NaN = NaN"
| "ddiv (Val a) PInf = Val 0"
| "ddiv (Val a) MInf = Val 0"
| "ddiv PInf (Val b) = (if 0 \<le> b then PInf else MInf)"
| "ddiv MInf (Val b) = (if 0 \<le> b then MInf else PInf)"
| "ddiv PInf PInf = NaN"
| "ddiv PInf MInf = NaN"
| "ddiv MInf PInf = NaN"
| "ddiv MInf MInf = NaN"

fun dadd :: "dbl \<Rightarrow> dbl \<Rightarrow> dbl" where
  "dadd (Val a) (Val b) = Val (a + b)"
| "dadd NaN _ = NaN"
| "dadd _ NaN = NaN"
| "dadd PInf MInf = NaN"
| "dadd MInf PInf = NaN"
| "dadd PInf _ = PInf"
| "dadd _ PInf = PInf"
| "dadd MInf _ = MInf"
| "dadd _ MInf = MInf"

definition dsub :: "dbl \<Rightarrow> dbl \<Rightarrow> dbl" where
  "dsub a b = dadd a (dneg b)"

fun dsqrt :: "dbl \<Rightarrow> dbl" where
  "dsqrt (Val a) = (if a < 0 then NaN else Val (sqrt a))"
| "dsqrt PInf = PInf"
| "dsqrt MInf = NaN"
| "dsqrt NaN = NaN"

section \<open>Filter catalog\<close>

definition reverse_vec :: "real list \<Rightarrow> real list" where
  "reverse_vec x = rev x"

text \<open>
  \<open>qmf\<close>: the reversed vector, with \<open>rev_g(i)\<close> multiplied by \<open>-1\<close> wherever
  \<open>(i + !inverse) % 2 != 0\<close>.  The C++ default of \<open>inverse\<close> is \<open>true\<close>.
\<close>

definition qmf :: "real list \<Rightarrow> bool \<Rightarrow> real list" where
  "qmf g inverse_flag =
     (let L = length g; rev_g = reverse_vec g
      in map (\<lambda>i. if (i + (if inverse_flag then 0 else 1)) mod 2 \<noteq> 0
                    then rev_g ! i * (- 1) else rev_g ! i) [0..<L])"

definition qmf_default :: "real list \<Rightarrow> real list" where
  "qmf_default g = qmf g True"

text \<open>
  The filter is a field of three vectors in the source, read back as the length \<open>L\<close>
  (a one-element vector cast to \<open>int\<close>), the wavelet filter \<open>h\<close> and the scaling filter \<open>g\<close>.
\<close>

record wfilter =
  filt_L :: int
  filt_h :: "real list"
  filt_g :: "real list"

definition haar_g :: "real list" where
  "haar_g = [7071067811865475 / 10 ^ 16, 7071067811865475 / 10 ^ 16]"

definition haar_filter :: wfilter where
  "haar_filter = \<lparr>filt_L = 2, filt_h = qmf_default haar_g, filt_g = haar_g\<rparr>"

definition select_filter :: "string \<Rightarrow> error + wfilter" where
  "select_filter filter_name =
     (if filter_name = ''haar'' then Inr haar_filter else Inl UnsupportedFilter)"

section \<open>Pyramid transforms\<close>

text \<open>
  The shared first step of both transforms.  For \<open>reflection\<close> the source resizes \<open>x\<close> to
  twice its length and assigns the reversed vector to \<open>x.rows(temp_N, 2*temp_N-1)\<close>; on an
  empty vector that range is \<open>rows(0, 2^32 - 1)\<close>, which Armadillo refuses.
\<close>

definition handle_boundary :: "string \<Rightarrow> real list \<Rightarrow> error + real list" where
  "handle_boundary boundary x =
     (if boundary = ''periodic'' then Inr x
      else if boundary = ''reflection'' then
        (let temp_N = length x; rev_vec = reverse_vec x
         in if temp_N > usub1 (2 * temp_N) \<or> usub1 (2 * temp_N) \<ge> 2 * temp_N
            then Inl OutOfBounds else Inr (x @ rev_vec))
      else Inl UnsupportedBoundary)"

text \<open>The inner loop of the DWT: \<open>for (int n = 1; n < L; n++)\<close> on the state \<open>(u, Wjt, Vjt)\<close>.\<close>

function dwt_inner ::
  "wfilter \<Rightarrow> nat \<Rightarrow> real list \<Rightarrow> int \<Rightarrow> int \<Rightarrow> int \<times> real \<times> real \<Rightarrow> error + int \<times> real \<times> real" where
  "dwt_inner f M x L n (u, Wjt, Vjt) =
     (if n < L then
        (let u1 = u - 1; u2 = (if u1 < 0 then int M - 1 else u1)
         in bindE (elem (filt_h f) n) (\<lambda>hn.
            bindE (elem x u2) (\<lambda>xu.
            bindE (elem (filt_g f) n) (\<lambda>gn.
              dwt_inner f M x L (n + 1) (u2, Wjt + hn * xu, Vjt + gn * xu)))))
      else Inr (u, Wjt, Vjt))"
  by pat_completeness auto
termination
  by (relation "measure (\<lambda>(f, M, x, L, n, s). nat (L - n))") auto

declare dwt_inner.simps [simp del]

definition dwt_coef :: "wfilter \<Rightarrow> nat \<Rightarrow> real list \<Rightarrow> nat \<Rightarrow> error + real \<times> real" where
  "dwt_coef f M x t =
     (let u = 2 * int t + 1
      in bindE (elem (filt_h f) 0) (\<lambda>h0.
         bindE (elem x u) (\<lambda>xu.
         bindE (elem (filt_g f) 0) (\<lambda>g0.
         bindE (dwt_inner f M x (filt_L f) 1 (u, h0 * xu, g0 * xu)) (\<lambda>(u', Wjt, Vjt).
           Inr (Wjt, Vjt))))))"

text \<open>
  One level: \<open>M = N / 2^(j-1)\<close> and \<open>M_over_2 = M / 2\<close> are double divisions truncated to
  \<open>unsigned int\<close>, that is integer divisions.  The result is the pair \<open>(Wj, Vj)\<close>.
\<close>

definition dwt_level :: "wfilter \<Rightarrow> nat \<Rightarrow> nat \<Rightarrow> real list \<Rightarrow> error + real list \<times> real list" where
  "dwt_level f N j x =
     (let M = N div 2 ^ (j - 1); M_over_2 = M div 2
      in bindE (mapE (dwt_coef f M x) [0..<M_over_2]) (\<lambda>WV.
           Inr (map fst WV, map snd WV)))"

text \<open>The loop \<open>for (j = 1; j <= J; j++)\<close>: \<open>y(j-1) = Wj\<close> is kept, \<open>x = Vj\<close> goes on.\<close>

function dwt_loop :: "wfilter \<Rightarrow> nat \<Rightarrow> nat \<Rightarrow> nat \<Rightarrow> real list \<Rightarrow> error + real list list" where
  "dwt_loop f N J j x =
     (if j \<le> J then
        bindE (dwt_level f N j x) (\<lambda>(Wj, Vj).
        bindE (dwt_loop f N J (j + 1) Vj) (\<lambda>ys. Inr (Wj # ys)))
      else Inr [])"
  by pat_completeness auto
termination
  by (relation "measure (\<lambda>(f, N, J, j, x). J + 1 - j)") auto

declare dwt_loop.simps [simp del]

text \<open>
  \<open>tau = pow(2, J)\<close> is stored in an \<open>unsigned int\<close>.  The two tests of the source follow:
  \<open>double(N)/double(tau) != floor(double(N)/double(tau))\<close>, then \<open>tau > N\<close>; both stop
  with a message about the number of levels.  The filter is looked up after them.
\<close>

definition dwt_arma :: "real list \<Rightarrow> string \<Rightarrow> nat \<Rightarrow> string \<Rightarrow> error + real list list" where
  "dwt_arma x0 filter_name nlevels boundary =
     bindE (handle_boundary boundary x0) (\<lambda>x.
       let N = length x; J = nlevels
       in bindE (to_uint (2 ^ J)) (\<lambda>tau.
            if real N / real tau \<noteq> of_int \<lfloor>real N / real tau\<rfloor> then Inl InvalidDecomposition
            else if tau > N then Inl InvalidDecomposition
            else bindE (select_filter filter_name) (\<lambda>filter_info.
                   dwt_loop filter_info N J 1 x)))"

text \<open>
  The inner loop of the MODWT, on the state \<open>(k, Wjt, Vjt)\<close>: \<open>k -= pow(2, j-1)\<close>, then
  \<open>k += N\<close> when \<open>k\<close> is negative.  (\<open>j \<le> J < 32\<close> once \<open>tau\<close> has been computed, so \<open>k\<close>
  stays within \<open>int\<close>.)
\<close>

function modwt_inner ::
  "real list \<Rightarrow> real list \<Rightarrow> nat \<Rightarrow> nat \<Rightarrow> real list \<Rightarrow> int \<Rightarrow> int \<Rightarrow> int \<times> real \<times> real
     \<Rightarrow> error + int \<times> real \<times> real" where
  "modwt_inner ht gt N j x L n (k, Wjt, Vjt) =
     (if n < L then
        (let k1 = k - 2 ^ (j - 1); k2 = (if k1 < 0 then k1 + int N else k1)
         in bindE (elem ht n) (\<lambda>hn.
            bindE (elem x k2) (\<lambda>xk.
            bindE (elem gt n) (\<lambda>gn.
              modwt_inner ht gt N j x L (n + 1) (k2, Wjt + hn * xk, Vjt + gn * xk)))))
      else Inr (k, Wjt, Vjt))"
  by pat_completeness auto
termination
  by (relation "measure (\<lambda>(ht, gt, N, j, x, L, n, s). nat (L - n))") auto

declare modwt_inner.simps [simp del]

definition modwt_coef ::
  "real list \<Rightarrow> real list \<Rightarrow> int \<Rightarrow> nat \<Rightarrow> nat \<Rightarrow> real list \<Rightarrow> nat \<Rightarrow> error + real \<times> real" where
  "modwt_coef ht gt L N j x t =
     (let k = int t
      in bindE (elem ht 0) (\<lambda>h0.
         bindE (elem x k) (\<lambda>xk.
         bindE (elem gt 0) (\<lambda>g0.
         bindE (modwt_inner ht gt N j x L 1 (k, h0 * xk, g0 * xk)) (\<lambda>(k', Wjt, Vjt).
           Inr (Wjt, Vjt))))))"

definition modwt_level ::
  "real list \<Rightarrow> real list \<Rightarrow> int \<Rightarrow> nat \<Rightarrow> nat \<Rightarrow> real list \<Rightarrow> error + real list \<times> real list" where
  "modwt_level ht gt L N j x =
     bindE (mapE (modwt_coef ht gt L N j x) [0..<N]) (\<lambda>WV.
       Inr (map fst WV, map snd WV))"

function modwt_loop ::
  "real list \<Rightarrow> real list \<Rightarrow> int \<Rightarrow> nat \<Rightarrow> nat \<Rightarrow> nat \<Rightarrow> real list \<Rightarrow> error + real list list" where
  "modwt_loop ht gt L N J j x =
     (if j \<le> J then
        bindE (modwt_level ht gt L N j x) (\<lambda>(Wj, Vj).
        bindE (modwt_loop ht gt L N J (j + 1) Vj) (\<lambda>ys. Inr (Wj # ys)))
      else Inr [])"
  by pat_completeness auto
termination
  by (relation "measure (\<lambda>(ht, gt, L, N, J, j, x). J + 1 - j)") auto

declare modwt_loop.simps [simp del]

text \<open>The MODWT divides both filters by \<open>sqrt(2)\<close> before the loop.\<close>

definition modwt_arma :: "real list \<Rightarrow> string \<Rightarrow> nat \<Rightarrow> string \<Rightarrow> error + real list list" where
  "modwt_arma x0 filter_name nlevels boundary =
     bindE (handle_boundary boundary x0) (\<lambda>x.
       let N = length x; J = nlevels
       in bindE (to_uint (2 ^ J)) (\<lambda>tau.
            if tau > N then Inl InvalidDecomposition
            else bindE (select_filter filter_name) (\<lambda>filter_info.
                   let L = filt_L filter_info;
                       transform_factor = sqrt 2;
                       ht = map (\<lambda>v. v / transform_factor) (filt_h filter_info);
                       gt = map (\<lambda>v. v / transform_factor) (filt_g filter_info)
                   in modwt_loop ht gt L N J 1 x)))"

section \<open>Frequency-domain autocovariance\<close>

text \<open>
  \<open>arma::fft\<close> and \<open>arma::ifft\<close> are the discrete Fourier transform and its inverse
  (the inverse divides by the length).
\<close>

definition fft :: "complex list \<Rightarrow> complex list" where
  "fft x =
     (let N = length x
      in map (\<lambda>k. \<Sum>t<N. x ! t * cis (- (2 * pi * real k * real t / real N))) [0..<N])"

definition ifft :: "complex list \<Rightarrow> complex list" where
  "ifft X =
     (let N = length X
      in map (\<lambda>t. (\<Sum>k<N. X ! k * cis (2 * pi * real k * real t / real N)) / of_nat N) [0..<N])"

text \<open>
  \<open>x.resize(2*n)\<close> pads with zeros.  The result is \<open>out.rows(0, n-1)\<close>, where \<open>n - 1\<close>
  becomes an unsigned index: for \<open>n = 0\<close> it is the largest one, which is out of range.
\<close>

definition dft_acf :: "real list \<Rightarrow> error + real list" where
  "dft_acf x0 =
     (let n = length x0;
          x = x0 @ replicate n 0;
          ff = fft (map complex_of_real x);
          iff = map (\<lambda>z. complex_of_real ((Re z)\<^sup>2 + (Im z)\<^sup>2)) ff;
          out = map (\<lambda>z. Re z / real n) (ifft iff)
      in rows 0 (usub1 n) out)"

section \<open>Boundary trimmer\<close>

text \<open>
  The number of coefficients to drop at level \<open>j\<close>.  The MODWT count
  \<open>(binary_power - 1.0) * (m - 1.0)\<close> is stored in the \<open>unsigned int n\<close> first, for every
  method; only the method \<open>dwt\<close> overwrites it.
\<close>

definition trim_count :: "string \<Rightarrow> int \<Rightarrow> nat \<Rightarrow> error + nat" where
  "trim_count method m j =
     (let binary_power = (2 :: real) ^ (j + 1)
      in bindE (to_uint ((binary_power - 1) * (real_of_int m - 1))) (\<lambda>n.
           if method = ''dwt''
           then to_uint (of_int \<lceil>real_of_int (m - 2) * (1 - 1 / binary_power)\<rceil>)
           else Inr n))"

definition brick_wall_level :: "string \<Rightarrow> int \<Rightarrow> nat \<Rightarrow> real list \<Rightarrow> error + real list" where
  "brick_wall_level method m j temp =
     bindE (trim_count method m j) (\<lambda>n0.
       let temp_size = length temp; n = min n0 temp_size
       in rows n (usub1 temp_size) temp)"

fun brick_wall_loop :: "string \<Rightarrow> int \<Rightarrow> nat \<Rightarrow> real list list \<Rightarrow> error + real list list" where
  "brick_wall_loop method m j [] = Inr []"
| "brick_wall_loop method m j (temp # rest) =
     bindE (brick_wall_level method m j temp) (\<lambda>trimmed.
     bindE (brick_wall_loop method m (j + 1) rest) (\<lambda>others. Inr (trimmed # others)))"

definition brick_wall :: "real list list \<Rightarrow> wfilter \<Rightarrow> string \<Rightarrow> error + real list list" where
  "brick_wall x wave_filter method = (let m = filt_L wave_filter in brick_wall_loop method m 0 x)"

section \<open>Wavelet variance and the eta3 interval\<close>

definition dot :: "real list \<Rightarrow> real list \<Rightarrow> real" where
  "dot a b = sum_list (map2 (*) a b)"

text \<open>The degrees of freedom of row \<open>i\<close>: \<open>std::max(dims(i)/pow(2,i+1), 1.0)\<close>.\<close>

definition eta3_df :: "real \<Rightarrow> nat \<Rightarrow> real" where
  "eta3_df d i = max (d / 2 ^ (i + 1)) 1"

text \<open>
  \<open>R::qchisq\<close> is the statistics library's quantile function and a parameter here:
  \<open>qchisq q df\<close> stands for \<open>R::qchisq(q, df, 1, 0)\<close>.  The matrix is the list of its rows
  (variance, lower bound, upper bound).  \<open>out.col(0) = y\<close> needs \<open>y\<close> to have as many
  elements as \<open>dims\<close>.
\<close>

definition ci_eta3_row :: "(real \<Rightarrow> real \<Rightarrow> dbl) \<Rightarrow> dbl list \<Rightarrow> real list \<Rightarrow> real \<Rightarrow> nat \<Rightarrow> error + dbl \<times> dbl" where
  "ci_eta3_row qchisq y dims p i =
     (let eta3 = eta3_df (dims ! i) i
      in bindE (elem y (int i)) (\<lambda>yi.
           Inr (ddiv (dmul (Val eta3) yi) (qchisq (1 - p) eta3),
                ddiv (dmul (Val eta3) yi) (qchisq p eta3))))"

definition ci_eta3 ::
  "(real \<Rightarrow> real \<Rightarrow> dbl) \<Rightarrow> dbl list \<Rightarrow> real list \<Rightarrow> real \<Rightarrow> error + (dbl \<times> dbl \<times> dbl) list" where
  "ci_eta3 qchisq y dims p =
     (let num_elem = length dims
      in bindE (mapE (ci_eta3_row qchisq y dims p) [0..<num_elem]) (\<lambda>bounds.
           if length y \<noteq> num_elem then Inl OutOfBounds
           else Inr (map2 (\<lambda>yi (lo, hi). (yi, lo, hi)) y bounds)))"

text \<open>\<open>dims(i)\<close> is the number of elements of the level handed in, \<open>y(i)\<close> its mean square.\<close>

definition wave_variance_dims :: "real list list \<Rightarrow> real list" where
  "wave_variance_dims x = map (\<lambda>temp. real (length temp)) x"

definition wave_variance_y :: "real list list \<Rightarrow> dbl list" where
  "wave_variance_y x = map (\<lambda>temp. ddiv (Val (dot temp temp)) (Val (real (length temp)))) x"

definition wave_variance ::
  "(real \<Rightarrow> real \<Rightarrow> dbl) \<Rightarrow> real list list \<Rightarrow> string \<Rightarrow> real \<Rightarrow> error + (dbl \<times> dbl \<times> dbl) list" where
  "wave_variance qchisq x type_name p =
     (let dims = wave_variance_dims x; y = wave_variance_y x
      in if type_name = ''eta3'' then ci_eta3 qchisq y dims p else Inl UnsupportedCIType)"

section \<open>Orchestrator\<close>

record wv_result =
  variance :: "dbl list"
  low :: "dbl list"
  high :: "dbl list"
  scales :: "real list"
  V :: "dbl list list"
  up_gauss :: "dbl list"
  dw_gauss :: "dbl list"

definition diagmat :: "dbl list \<Rightarrow> dbl list list" where
  "diagmat d = map (\<lambda>i. map (\<lambda>k. if i = k then d ! i else Val 0) [0..<length d]) [0..<length d]"

definition diagvec :: "dbl list list \<Rightarrow> dbl list" where
  "diagvec m = map (\<lambda>i. m ! i ! i) [0..<length m]"

text \<open>
  \<open>nb_level = floor(log2(n_ts))\<close> is stored in an \<open>unsigned int\<close>; for an empty signal
  \<open>log2(0)\<close> is minus infinity, which no integer holds.
\<close>

definition nb_level_of :: "nat \<Rightarrow> error + nat" where
  "nb_level_of n_ts =
     (if n_ts = 0 then Inl UndefinedConversion else to_uint (of_int \<lfloor>log 2 (real n_ts)\<rfloor>))"

text \<open>The diagonal covariance of the mode \<open>diag\<close>; \<open>signal_modwt(0)\<close> is a checked access.\<close>

definition diag_Aj :: "real list \<Rightarrow> error + real" where
  "diag_Aj level =
     bindE (dft_acf level) (\<lambda>temp.
     bindE (elem temp 0) (\<lambda>t0. Inr (dot temp temp - t0 * t0 / 2)))"

definition diag_V :: "real list list \<Rightarrow> error + dbl list list" where
  "diag_V signal_modwt =
     bindE (mapE diag_Aj signal_modwt) (\<lambda>Aj.
     bindE (elem signal_modwt 0) (\<lambda>level0.
       Inr (diagmat (map (\<lambda>a. ddiv (Val (2 * a)) (Val (real (length level0)))) Aj))))"

text \<open>
  \<open>R::qnorm\<close> is a parameter as well: \<open>qnorm q\<close> stands for \<open>R::qnorm(q, 0.0, 1.0, 1, 0)\<close>.
  The source calls \<open>modwt_arma\<close> with its default boundary \<open>periodic\<close>, \<open>brick_wall\<close> with its
  default method \<open>modwt\<close>, and \<open>wave_variance\<close> with \<open>eta3\<close> and \<open>p\<close>.
\<close>

definition gauss_part ::
  "(real \<Rightarrow> dbl) \<Rightarrow> real \<Rightarrow> string \<Rightarrow> nat \<Rightarrow> real list list \<Rightarrow> dbl list
     \<Rightarrow> error + dbl list list \<times> dbl list \<times> dbl list" where
  "gauss_part qnorm p compute_v nb_level signal_modwt col0 =
     (let V0 = diagmat (replicate nb_level (Val 1))
      in if compute_v = ''full'' \<or> compute_v = ''diag'' then
           bindE (if compute_v = ''diag'' then diag_V signal_modwt else Inr V0) (\<lambda>V1.
             let spread = map (\<lambda>v. dmul (qnorm (1 - p)) (dsqrt v)) (diagvec V1)
             in Inr (V1, map2 dadd col0 spread, map2 dsub col0 spread))
         else Inr (diagmat (replicate nb_level (Val 1)),
                   replicate nb_level NaN, replicate nb_level NaN))"

definition wavelet_variance_arma ::
  "(real \<Rightarrow> real \<Rightarrow> dbl) \<Rightarrow> (real \<Rightarrow> dbl) \<Rightarrow> real list \<Rightarrow> string \<Rightarrow> string \<Rightarrow> error + wv_result" where
  "wavelet_variance_arma qchisq qnorm signal strWavelet compute_v =
     (let p = 25 / 1000; n_ts = length signal
      in bindE (nb_level_of n_ts) (\<lambda>nb_level.
         bindE (modwt_arma signal strWavelet nb_level ''periodic'') (\<lambda>signal_modwt.
         bindE (select_filter strWavelet) (\<lambda>wave_filter.
         bindE (brick_wall signal_modwt wave_filter ''modwt'') (\<lambda>signal_modwt_bw.
         bindE (wave_variance qchisq signal_modwt_bw ''eta3'' p) (\<lambda>vmod.
         bindE (gauss_part qnorm p compute_v nb_level signal_modwt (map fst vmod))
           (\<lambda>(V1, up, dw).
             Inr \<lparr>variance = map fst vmod,
                  low = map (\<lambda>r. fst (snd r)) vmod,
                  high = map (\<lambda>r. snd (snd r)) vmod,
                  scales = map (\<lambda>i. 2 ^ (i + 1)) [0..<nb_level],
                  V = V1, up_gauss = up, dw_gauss = dw\<rparr>)))))))"

section \<open>Closed forms\<close>

text \<open>
  The values that the lemmas below show the code to compute: the two trim counts as
  natural numbers (for a filter length \<open>m \<ge> 1\<close>), the mean square of a level and a row
  of the eta3 matrix.
\<close>

definition modwt_count :: "int \<Rightarrow> nat \<Rightarrow> nat" where
  "modwt_count m j = (2 ^ (j + 1) - 1) * nat (m - 1)"

definition dwt_count :: "int \<Rightarrow> nat \<Rightarrow> nat" where
  "dwt_count m j = nat \<lceil>real_of_int (m - 2) * (1 - 1 / 2 ^ (j + 1))\<rceil>"

definition level_y :: "real list \<Rightarrow> dbl" where
  "level_y temp = ddiv (Val (dot temp temp)) (Val (real (length temp)))"

definition eta3_row :: "(real \<Rightarrow> real \<Rightarrow> dbl) \<Rightarrow> real \<Rightarrow> dbl \<Rightarrow> real \<Rightarrow> nat \<Rightarrow> dbl \<times> dbl \<times> dbl" where
  "eta3_row qchisq p yi d i =
     (yi, ddiv (dmul (Val (eta3_df d i)) yi) (qchisq (1 - p) (eta3_df d i)),
          ddiv (dmul (Val (eta3_df d i)) yi) (qchisq p (eta3_df d i)))"

section \<open>Facts about the failure monad\<close>

lemma bindE_Inl [simp]: "bindE (Inl e) f = Inl e"
  by (simp add: bindE_def)

lemma bindE_Inr [simp]: "bindE (Inr v) f = f v"
  by (simp add: bindE_def)

lemma mapE_Inr:
  "(\<And>a. a \<in> set xs \<Longrightarrow> f a = Inr (g a)) \<Longrightarrow> mapE f xs = Inr (map g xs)"
  by (induction xs) simp_all

section \<open>The quadrature mirror filter\<close>

lemma haar_g_close: "\<bar>7071067811865475 / 10 ^ 16 - 1 / sqrt 2\<bar> < 1 / 10 ^ 16"
proof -
  let ?c = "7071067811865475 / 10 ^ 16 :: real"
  have lo: "?c < 1 / sqrt 2"
  proof -
    have "?c\<^sup>2 < (1 / sqrt 2)\<^sup>2" by (simp add: power2_eq_square field_simps)
    then show ?thesis by (rule power2_less_imp_less) simp
  qed
  have hi: "1 / sqrt 2 < ?c + 1 / 10 ^ 16"
  proof -
    have "(1 / sqrt 2)\<^sup>2 < (?c + 1 / 10 ^ 16)\<^sup>2" by (simp add: power2_eq_square field_simps)
    then show ?thesis by (rule power2_less_imp_less) simp
  qed
  from lo hi show ?thesis by (simp add: abs_less_iff)
qed

lemma qmf_length: "length (qmf g b) = length g"
  by (simp add: qmf_def Let_def)

lemma qmf_nth:
  "i < length g \<Longrightarrow> qmf g b ! i = (if odd i = b then - (rev g ! i) else rev g ! i)"
  by (cases b) (auto simp add: qmf_def Let_def reverse_vec_def mod_2_eq_odd)

lemma haar_h: "filt_h haar_filter = [7071067811865475 / 10 ^ 16, - (7071067811865475 / 10 ^ 16)]"
  by (simp add: haar_filter_def qmf_default_def qmf_def reverse_vec_def haar_g_def upt_rec)

text \<open>
  Claim C3, as the code has it.  \<open>qmf g inverse\<close> is the reversal of \<open>g\<close> with the same
  length; with \<open>inverse = true\<close> (the inverse form, the default) the elements at the odd
  indices are negated, with \<open>inverse = false\<close> (the forward form) those at the even
  indices.  \<open>haar_filter\<close> builds \<open>h\<close> by the default QMF of \<open>g\<close>, whose two entries are
  the decimal \<open>0.7071067811865475\<close>, within \<open>10^-16\<close> of \<open>1/sqrt 2\<close>.
\<close>

theorem qmf_sign_pattern:
  "length (qmf g b) = length g \<and>
   (\<forall>i<length g. qmf g b ! i = (if odd i = b then - (rev g ! i) else rev g ! i)) \<and>
   qmf_default g = qmf g True \<and>
   filt_h haar_filter = qmf_default (filt_g haar_filter) \<and>
   filt_g haar_filter = [7071067811865475 / 10 ^ 16, 7071067811865475 / 10 ^ 16] \<and>
   \<bar>7071067811865475 / 10 ^ 16 - 1 / sqrt 2\<bar> < (1 / 10 ^ 16 :: real)"
  using haar_g_close qmf_nth [of _ g b]
  by (simp add: qmf_length qmf_default_def haar_filter_def haar_g_def
        del: divide_less_eq_numeral1 less_divide_eq_numeral1)

theorem qmf_sign_pattern_witness:
  "qmf [1, 2, 3] True ! 1 = - 2 \<and> qmf [1, 2, 3] False ! 0 = - 3 \<and> qmf [1, 2, 3] False ! 1 = 2"
  using qmf_sign_pattern [of "[1, 2, 3]" True] qmf_sign_pattern [of "[1, 2, 3]" False]
  by simp

text \<open>
  The claim as it was stated has the two forms the other way round: on \<open>(1, 2)\<close> the
  inverse form leaves index 0 alone and the forward form leaves index 1 alone.
\<close>

theorem qmf_claimed_pattern_counterexample:
  "qmf [1, 2] True = [2, - 1] \<and> qmf [1, 2] False = [- 2, 1] \<and>
   qmf [1, 2] True ! 0 \<noteq> - (rev [1, 2] ! 0) \<and> qmf [1, 2] False ! 1 \<noteq> - (rev [1, 2] ! 1)"
  by (simp add: qmf_def reverse_vec_def upt_rec)

section \<open>The transforms: level checks and lengths\<close>

lemma to_uint_pow2_small: "J < 32 \<Longrightarrow> to_uint (2 ^ J) = Inr (2 ^ J)"
proof -
  assume "J < 32"
  then have "(2 :: real) ^ J < 2 ^ 32" by (simp only: power_strict_increasing_iff one_less_numeral_iff semiring_norm)
  moreover have "nat \<lfloor>(2 :: real) ^ J\<rfloor> = 2 ^ J"
  proof -
    have "(2 :: real) ^ J = of_int (2 ^ J)" by simp
    then have "\<lfloor>(2 :: real) ^ J\<rfloor> = 2 ^ J" by (simp only: floor_of_int)
    then show ?thesis by (simp add: nat_power_eq)
  qed
  moreover have "- 1 < (2 :: real) ^ J" by (rule less_le_trans [of _ 0]) simp_all
  ultimately show ?thesis by (simp add: to_uint_def)
qed

lemma to_uint_pow2_big: "32 \<le> J \<Longrightarrow> to_uint (2 ^ J) = Inl UndefinedConversion"
proof -
  assume "32 \<le> J"
  then have "(2 :: real) ^ 32 \<le> 2 ^ J" by (simp only: power_increasing_iff one_less_numeral_iff semiring_norm)
  then show ?thesis by (simp add: to_uint_def)
qed

lemma haar_L: "filt_L haar_filter = 2"
  by (simp add: haar_filter_def)

lemma haar_h_len: "length (filt_h haar_filter) = 2"
  by (simp add: haar_filter_def qmf_default_def qmf_length haar_g_def)

lemma haar_g_len: "length (filt_g haar_filter) = 2"
  by (simp add: haar_filter_def haar_g_def)

lemma dwt_coef_haar:
  assumes "2 * t + 1 < length x"
  shows "\<exists>w v. dwt_coef haar_filter M x t = Inr (w, v)"
  using assms
  by (simp add: dwt_coef_def Let_def elem_def haar_L haar_h_len haar_g_len
        dwt_inner.simps [of _ _ _ 2 1] dwt_inner.simps [of _ _ _ 2 2])

lemma mapE_ex:
  "(\<And>a. a \<in> set xs \<Longrightarrow> \<exists>b. f a = Inr b) \<Longrightarrow> \<exists>ys. mapE f xs = Inr ys \<and> length ys = length xs"
proof (induction xs)
  case Nil
  then show ?case by simp
next
  case (Cons a xs)
  from Cons.prems [of a] obtain b where b: "f a = Inr b" by auto
  from Cons.IH Cons.prems obtain ys where "mapE f xs = Inr ys" "length ys = length xs" by auto
  with b show ?case by simp
qed

lemma dwt_level_haar:
  assumes "N div 2 ^ (j - 1) \<le> length x"
  shows "\<exists>Wj Vj. dwt_level haar_filter N j x = Inr (Wj, Vj) \<and>
           length Wj = N div 2 ^ (j - 1) div 2 \<and> length Vj = N div 2 ^ (j - 1) div 2"
proof -
  let ?M = "N div 2 ^ (j - 1)"
  have "\<exists>ys. mapE (dwt_coef haar_filter ?M x) [0..<?M div 2] = Inr ys \<and> length ys = length [0..<?M div 2]"
  proof (rule mapE_ex)
    fix t assume "t \<in> set [0..<?M div 2]"
    then have "2 * t + 1 < ?M" by auto
    with assms have "2 * t + 1 < length x" by linarith
    then have "\<exists>w v. dwt_coef haar_filter ?M x t = Inr (w, v)" by (rule dwt_coef_haar)
    then show "\<exists>b. dwt_coef haar_filter ?M x t = Inr b" by auto
  qed
  then obtain ys where "mapE (dwt_coef haar_filter ?M x) [0..<?M div 2] = Inr ys" "length ys = ?M div 2"
    by auto
  then show ?thesis by (simp add: dwt_level_def Let_def)
qed

lemma div_pow2_step: "1 \<le> j \<Longrightarrow> N div 2 ^ (j - 1) div 2 = N div 2 ^ j" for N :: nat
proof -
  assume "1 \<le> j"
  then obtain k where k: "j = Suc k" by (cases j) auto
  have "N div 2 ^ Suc k = N div (2 ^ k * 2)" by (simp add: mult.commute)
  also have "\<dots> = N div 2 ^ k div 2" by (rule div_mult2_eq)
  finally show ?thesis using k by simp
qed

lemma dwt_loop_haar:
  "1 \<le> j \<Longrightarrow> N div 2 ^ (j - 1) \<le> length x \<Longrightarrow>
   \<exists>ys. dwt_loop haar_filter N J j x = Inr ys \<and> length ys = J + 1 - j \<and>
        (\<forall>i<length ys. length (ys ! i) = N div 2 ^ (j + i))"
proof (induction "haar_filter" N J j x rule: dwt_loop.induct)
  case (1 N J j x)
  show ?case
  proof (cases "j \<le> J")
    case False
    then show ?thesis by (simp add: dwt_loop.simps [of _ N J j x])
  next
    case True
    from dwt_level_haar [OF "1.prems"(2)] obtain Wj Vj where
      lev: "dwt_level haar_filter N j x = Inr (Wj, Vj)"
      and lw: "length Wj = N div 2 ^ (j - 1) div 2" and lv: "length Vj = N div 2 ^ (j - 1) div 2"
      by blast
    from lw lv div_pow2_step [OF "1.prems"(1), of N]
    have lw': "length Wj = N div 2 ^ j" and lv': "length Vj = N div 2 ^ j"
      by simp_all
    have "\<exists>ys. dwt_loop haar_filter N J (j + 1) Vj = Inr ys \<and> length ys = J + 1 - (j + 1) \<and>
        (\<forall>i<length ys. length (ys ! i) = N div 2 ^ (j + 1 + i))"
      using True lv' by (intro "1.hyps") simp_all
    then obtain ys where ys: "dwt_loop haar_filter N J (j + 1) Vj = Inr ys"
      "length ys = J + 1 - (j + 1)" "\<forall>i<length ys. length (ys ! i) = N div 2 ^ (j + 1 + i)"
      by blast
    have "dwt_loop haar_filter N J j x = Inr (Wj # ys)"
      using True lev ys(1) by (simp add: dwt_loop.simps [of _ N J j x])
    moreover have "length (Wj # ys) = J + 1 - j" using True ys(2) by simp
    moreover have "\<forall>i<length (Wj # ys). length ((Wj # ys) ! i) = N div 2 ^ (j + i)"
    proof (intro allI impI)
      fix i assume "i < length (Wj # ys)"
      then show "length ((Wj # ys) ! i) = N div 2 ^ (j + i)"
        using lw' ys(3) by (cases i) simp_all
    qed
    ultimately show ?thesis by blast
  qed
qed

lemma div_check:
  assumes "0 < tau"
  shows "(real N / real tau \<noteq> of_int \<lfloor>real N / real tau\<rfloor>) \<longleftrightarrow> \<not> tau dvd N"
proof -
  have fl: "\<lfloor>real N / real tau\<rfloor> = int (N div tau)" by (rule floor_divide_of_nat_eq)
  show ?thesis
  proof (cases "tau dvd N")
    case True
    then show ?thesis by (simp add: fl real_of_nat_div)
  next
    case False
    have "real N / real tau \<noteq> real (N div tau)"
    proof
      assume "real N / real tau = real (N div tau)"
      then have "real N = real (N div tau * tau)" using assms by (simp add: field_simps)
      then have "N = N div tau * tau" by (simp only: of_nat_eq_iff)
      then have "tau dvd N" by (metis dvd_triv_right)
      with False show False by simp
    qed
    with False show ?thesis by (simp add: fl)
  qed
qed

lemma dwt_arma_checked:
  assumes "J < 32" "handle_boundary boundary x0 = Inr x"
  shows "dwt_arma x0 filter_name J boundary =
           (if \<not> 2 ^ J dvd length x \<or> 2 ^ J > length x then Inl InvalidDecomposition
            else bindE (select_filter filter_name) (\<lambda>fi. dwt_loop fi (length x) J 1 x))"
proof -
  have "(0 :: nat) < 2 ^ J" by simp
  from div_check [OF this, of "length x"] assms show ?thesis
    by (simp add: dwt_arma_def Let_def to_uint_pow2_small del: of_nat_power)
qed

lemma modwt_arma_checked:
  assumes "J < 32" "handle_boundary boundary x0 = Inr x"
  shows "modwt_arma x0 filter_name J boundary =
           (if 2 ^ J > length x then Inl InvalidDecomposition
            else bindE (select_filter filter_name) (\<lambda>fi.
                   modwt_loop (map (\<lambda>v. v / sqrt 2) (filt_h fi)) (map (\<lambda>v. v / sqrt 2) (filt_g fi))
                     (filt_L fi) (length x) J 1 x))"
  using assms by (simp add: modwt_arma_def Let_def to_uint_pow2_small)

lemma dwt_arma_undefined:
  "32 \<le> J \<Longrightarrow> handle_boundary boundary x0 = Inr x \<Longrightarrow>
   dwt_arma x0 filter_name J boundary = Inl UndefinedConversion"
  by (simp add: dwt_arma_def Let_def to_uint_pow2_big)

lemma modwt_arma_undefined:
  "32 \<le> J \<Longrightarrow> handle_boundary boundary x0 = Inr x \<Longrightarrow>
   modwt_arma x0 filter_name J boundary = Inl UndefinedConversion"
  by (simp add: modwt_arma_def Let_def to_uint_pow2_big)

lemma elem_in: "0 \<le> k \<Longrightarrow> k < int (length x) \<Longrightarrow> elem x k = Inr (x ! nat k)"
  by (simp add: elem_def)

lemma modwt_inner_step:
  "modwt_inner ht gt N j x 2 1 (k, Wjt, Vjt) =
     bindE (elem ht 1) (\<lambda>hn.
     bindE (elem x (if k - 2 ^ (j - 1) < 0 then k - 2 ^ (j - 1) + int N else k - 2 ^ (j - 1))) (\<lambda>xk.
     bindE (elem gt 1) (\<lambda>gn.
       Inr (if k - 2 ^ (j - 1) < 0 then k - 2 ^ (j - 1) + int N else k - 2 ^ (j - 1),
            Wjt + hn * xk, Vjt + gn * xk))))"
  by (simp add: modwt_inner.simps [of _ _ _ _ _ 2 1] modwt_inner.simps [of _ _ _ _ _ 2 2] Let_def)

lemma wrap_in_range:
  fixes p :: int
  assumes "0 \<le> p" "p \<le> int N" "t < N"
  shows "0 \<le> (if int t - p < 0 then int t - p + int N else int t - p)"
    and "(if int t - p < 0 then int t - p + int N else int t - p) < int N"
  using assms by auto

lemma modwt_coef_two:
  assumes "length ht = 2" "length gt = 2" "t < N" "length x = N" "2 ^ (j - 1) \<le> N"
  shows "\<exists>w v. modwt_coef ht gt 2 N j x t = Inr (w, v)"
proof -
  let ?k1 = "int t - 2 ^ (j - 1)"
  let ?k2 = "if ?k1 < 0 then ?k1 + int N else ?k1"
  have "int (2 ^ (j - 1)) \<le> int N" using assms(5) by (rule iffD2 [OF of_nat_le_iff])
  then have p: "(2 :: int) ^ (j - 1) \<le> int N" by simp
  have p0: "(0 :: int) \<le> 2 ^ (j - 1)" by simp
  have e1: "elem x ?k2 = Inr (x ! nat ?k2)"
    using wrap_in_range [OF p0 p assms(3)] unfolding assms(4) [symmetric] by (rule elem_in)
  have e0: "elem x (int t) = Inr (x ! t)" using assms(3,4) by (simp add: elem_def)
  have h0: "elem ht 0 = Inr (ht ! 0)" and h1: "elem ht 1 = Inr (ht ! 1)"
    and g0: "elem gt 0 = Inr (gt ! 0)" and g1: "elem gt 1 = Inr (gt ! 1)"
    using assms(1,2) by (simp_all add: elem_def)
  show ?thesis
    unfolding modwt_coef_def Let_def modwt_inner_step
    by (simp only: e0 e1 h0 h1 g0 g1 bindE_Inr prod.case) blast
qed

lemma modwt_level_two:
  assumes "length ht = 2" "length gt = 2" "length x = N" "2 ^ (j - 1) \<le> N"
  shows "\<exists>Wj Vj. modwt_level ht gt 2 N j x = Inr (Wj, Vj) \<and> length Wj = N \<and> length Vj = N"
proof -
  have "\<exists>ys. mapE (modwt_coef ht gt 2 N j x) [0..<N] = Inr ys \<and> length ys = length [0..<N]"
  proof (rule mapE_ex)
    fix t assume "t \<in> set [0..<N]"
    then have "t < N" by simp
    from modwt_coef_two [OF assms(1,2) this assms(3,4)]
    show "\<exists>b. modwt_coef ht gt 2 N j x t = Inr b" by auto
  qed
  then obtain ys where "mapE (modwt_coef ht gt 2 N j x) [0..<N] = Inr ys" "length ys = N" by auto
  then show ?thesis by (simp add: modwt_level_def)
qed

lemma modwt_loop_two:
  "length ht = 2 \<Longrightarrow> length gt = 2 \<Longrightarrow> L = 2 \<Longrightarrow> length x = N \<Longrightarrow> 2 ^ J \<le> N \<Longrightarrow>
   \<exists>ys. modwt_loop ht gt L N J j x = Inr ys \<and> length ys = J + 1 - j \<and>
        (\<forall>i<length ys. length (ys ! i) = N)"
proof (induction ht gt L N J j x rule: modwt_loop.induct)
  case (1 ht gt L N J j x)
  show ?case
  proof (cases "j \<le> J")
    case False
    then show ?thesis by (simp add: modwt_loop.simps [of ht gt L N J j x])
  next
    case True
    then have "(2 :: nat) ^ (j - 1) \<le> 2 ^ J" by (intro power_increasing) simp_all
    with "1.prems"(5) have small: "2 ^ (j - 1) \<le> N" by linarith
    from modwt_level_two [OF "1.prems"(1,2,4) small] "1.prems"(3) obtain Wj Vj where
      lev: "modwt_level ht gt L N j x = Inr (Wj, Vj)" and lw: "length Wj = N" and lv: "length Vj = N"
      by blast
    have "\<exists>ys. modwt_loop ht gt L N J (j + 1) Vj = Inr ys \<and> length ys = J + 1 - (j + 1) \<and>
        (\<forall>i<length ys. length (ys ! i) = N)"
      using True lv "1.prems" by (intro "1.IH") simp_all
    then obtain ys where ys: "modwt_loop ht gt L N J (j + 1) Vj = Inr ys"
      "length ys = J + 1 - (j + 1)" "\<forall>i<length ys. length (ys ! i) = N"
      by blast
    have "modwt_loop ht gt L N J j x = Inr (Wj # ys)"
      using True lev ys(1) by (simp add: modwt_loop.simps [of ht gt L N J j x])
    moreover have "length (Wj # ys) = J + 1 - j" using True ys(2) by simp
    moreover have "\<forall>i<length (Wj # ys). length ((Wj # ys) ! i) = N"
    proof (intro allI impI)
      fix i assume "i < length (Wj # ys)"
      then show "length ((Wj # ys) ! i) = N"
        using lw ys(3) by (cases i) simp_all
    qed
    ultimately show ?thesis by blast
  qed
qed

lemma pow2_small: "2 ^ J \<le> N \<Longrightarrow> N < 2 ^ 32 \<Longrightarrow> J < 32" for N :: nat
proof -
  assume "2 ^ J \<le> N" "N < 2 ^ 32"
  then have "(2 :: nat) ^ J < 2 ^ 32" by linarith
  then show ?thesis by (simp only: power_strict_increasing_iff one_less_numeral_iff semiring_norm)
qed

lemma modwt_arma_haar:
  assumes "handle_boundary boundary x0 = Inr x" "length x < 2 ^ 32" "2 ^ J \<le> length x"
  shows "\<exists>y. modwt_arma x0 ''haar'' J boundary = Inr y \<and> length y = J \<and>
           (\<forall>i<J. length (y ! i) = length x)"
proof -
  from assms(3,2) have J: "J < 32" by (rule pow2_small)
  let ?ht = "map (\<lambda>v. v / sqrt 2) (filt_h haar_filter)"
  let ?gt = "map (\<lambda>v. v / sqrt 2) (filt_g haar_filter)"
  have "\<exists>ys. modwt_loop ?ht ?gt (filt_L haar_filter) (length x) J 1 x = Inr ys \<and>
          length ys = J + 1 - 1 \<and> (\<forall>i<length ys. length (ys ! i) = length x)"
    using assms(3) by (intro modwt_loop_two) (simp_all add: haar_h_len haar_g_len haar_L)
  then obtain ys where "modwt_loop ?ht ?gt (filt_L haar_filter) (length x) J 1 x = Inr ys"
    "length ys = J" "\<forall>i<length ys. length (ys ! i) = length x" by auto
  then show ?thesis using assms(3)
    by (simp add: modwt_arma_checked [OF J assms(1)] select_filter_def)
qed

lemma dwt_arma_haar:
  assumes "handle_boundary boundary x0 = Inr x" "length x < 2 ^ 32" "2 ^ J \<le> length x"
    "2 ^ J dvd length x"
  shows "\<exists>y. dwt_arma x0 ''haar'' J boundary = Inr y \<and> length y = J \<and>
           (\<forall>i<J. length (y ! i) = length x div 2 ^ (i + 1))"
proof -
  from assms(3,2) have J: "J < 32" by (rule pow2_small)
  have "\<exists>ys. dwt_loop haar_filter (length x) J 1 x = Inr ys \<and> length ys = J + 1 - 1 \<and>
        (\<forall>i<length ys. length (ys ! i) = length x div 2 ^ (1 + i))"
    by (rule dwt_loop_haar) simp_all
  then obtain ys where "dwt_loop haar_filter (length x) J 1 x = Inr ys"
    "length ys = J" "\<forall>i<length ys. length (ys ! i) = length x div 2 ^ (1 + i)" by auto
  then show ?thesis using assms(3,4)
    by (simp add: dwt_arma_checked [OF J assms(1)] select_filter_def)
qed

lemma handle_boundary_periodic: "handle_boundary ''periodic'' x = Inr x"
  by (simp add: handle_boundary_def)

lemma handle_boundary_reflection:
  "x \<noteq> [] \<Longrightarrow> handle_boundary ''reflection'' x = Inr (x @ rev x)"
  by (cases x) (simp_all add: handle_boundary_def Let_def usub1_def reverse_vec_def)

lemma dwt_arma_invalid_iff:
  assumes "J < 32" "handle_boundary boundary x0 = Inr x"
  shows "dwt_arma x0 filter_name J boundary = Inl InvalidDecomposition
           \<longleftrightarrow> \<not> 2 ^ J dvd length x \<or> 2 ^ J > length x"
proof (cases "\<not> 2 ^ J dvd length x \<or> 2 ^ J > length x")
  case True
  then show ?thesis by (simp add: dwt_arma_checked [OF assms])
next
  case False
  have "\<exists>ys. dwt_loop haar_filter (length x) J 1 x = Inr ys \<and> length ys = J + 1 - 1 \<and>
        (\<forall>i<length ys. length (ys ! i) = length x div 2 ^ (1 + i))"
    by (rule dwt_loop_haar) simp_all
  then obtain ys where "dwt_loop haar_filter (length x) J 1 x = Inr ys" by blast
  with False show ?thesis
    by (simp add: dwt_arma_checked [OF assms] select_filter_def)
qed

lemma modwt_arma_invalid_iff:
  assumes "J < 32" "handle_boundary boundary x0 = Inr x"
  shows "modwt_arma x0 filter_name J boundary = Inl InvalidDecomposition \<longleftrightarrow> 2 ^ J > length x"
proof (cases "2 ^ J > length x")
  case True
  then show ?thesis by (simp add: modwt_arma_checked [OF assms])
next
  case False
  let ?ht = "map (\<lambda>v. v / sqrt 2) (filt_h haar_filter)"
  let ?gt = "map (\<lambda>v. v / sqrt 2) (filt_g haar_filter)"
  have "\<exists>ys. modwt_loop ?ht ?gt (filt_L haar_filter) (length x) J 1 x = Inr ys \<and>
          length ys = J + 1 - 1 \<and> (\<forall>i<length ys. length (ys ! i) = length x)"
    using False by (intro modwt_loop_two) (simp_all add: haar_h_len haar_g_len haar_L)
  then obtain ys where "modwt_loop ?ht ?gt (filt_L haar_filter) (length x) J 1 x = Inr ys" by blast
  with False show ?thesis
    by (simp add: modwt_arma_checked [OF assms] select_filter_def)
qed

text \<open>
  Claim C4.  While \<open>2^J\<close> fits the \<open>unsigned int tau\<close> (\<open>J < 32\<close>), the two lemmas above
  are the claim: the DWT stops with the level-count failure exactly when \<open>2^J\<close> does not
  divide \<open>N\<close> or exceeds it, the MODWT exactly when \<open>2^J\<close> exceeds \<open>N\<close>.  From \<open>J = 32\<close> on,
  \<open>pow(2, J)\<close> is outside the range of \<open>tau\<close> and the conversion is undefined, so the
  failure that the claim promises is not what the code gives: here for sixteen samples
  and \<open>J = 32\<close>.
\<close>

theorem level_count_overflow:
  "dwt_arma (replicate 16 1) ''haar'' 32 ''periodic'' = Inl UndefinedConversion \<and>
   modwt_arma (replicate 16 1) ''haar'' 32 ''periodic'' = Inl UndefinedConversion \<and>
   dwt_arma (replicate 16 1) ''haar'' 32 ''periodic'' \<noteq> Inl InvalidDecomposition \<and>
   modwt_arma (replicate 16 1) ''haar'' 32 ''periodic'' \<noteq> Inl InvalidDecomposition"
  by (simp add: dwt_arma_undefined [OF _ handle_boundary_periodic]
        modwt_arma_undefined [OF _ handle_boundary_periodic])

text \<open>
  Claim C6.  For a signal whose boundary-handled length \<open>N\<close> fits an \<open>unsigned int\<close>,
  and \<open>2^J \<le> N\<close>: the MODWT with the Haar filter returns \<open>J\<close> levels, each of length \<open>N\<close>;
  if moreover \<open>2^J\<close> divides \<open>N\<close>, the DWT returns \<open>J\<close> levels, and level \<open>j\<close> (counted
  from 1) has length \<open>N / 2^j\<close>.
\<close>

theorem transform_level_lengths:
  assumes "handle_boundary boundary x0 = Inr x" "length x < 2 ^ 32" "2 ^ J \<le> length x"
  shows "(\<exists>y. modwt_arma x0 ''haar'' J boundary = Inr y \<and> length y = J \<and>
            (\<forall>j. 1 \<le> j \<and> j \<le> J \<longrightarrow> length (y ! (j - 1)) = length x)) \<and>
         (2 ^ J dvd length x \<longrightarrow>
           (\<exists>y. dwt_arma x0 ''haar'' J boundary = Inr y \<and> length y = J \<and>
            (\<forall>j. 1 \<le> j \<and> j \<le> J \<longrightarrow> real (length (y ! (j - 1))) = real (length x) / 2 ^ j)))"
proof (intro conjI impI)
  from modwt_arma_haar [OF assms] obtain y where
    y: "modwt_arma x0 ''haar'' J boundary = Inr y" "length y = J" "\<forall>i<J. length (y ! i) = length x"
    by blast
  have "\<forall>j. 1 \<le> j \<and> j \<le> J \<longrightarrow> length (y ! (j - 1)) = length x"
  proof (intro allI impI)
    fix j assume "1 \<le> j \<and> j \<le> J"
    then have "j - 1 < J" by linarith
    with y(3) show "length (y ! (j - 1)) = length x" by blast
  qed
  with y(1,2) show "\<exists>y. modwt_arma x0 ''haar'' J boundary = Inr y \<and> length y = J \<and>
            (\<forall>j. 1 \<le> j \<and> j \<le> J \<longrightarrow> length (y ! (j - 1)) = length x)" by blast
next
  assume dv: "2 ^ J dvd length x"
  from dwt_arma_haar [OF assms dv] obtain y where
    y: "dwt_arma x0 ''haar'' J boundary = Inr y" "length y = J"
       "\<forall>i<J. length (y ! i) = length x div 2 ^ (i + 1)"
    by blast
  have "\<forall>j. 1 \<le> j \<and> j \<le> J \<longrightarrow> real (length (y ! (j - 1))) = real (length x) / 2 ^ j"
  proof (intro allI impI)
    fix j assume j: "1 \<le> j \<and> j \<le> J"
    then have "j - 1 < J" by linarith
    with y(3) have "length (y ! (j - 1)) = length x div 2 ^ (j - 1 + 1)" by blast
    with j have l: "length (y ! (j - 1)) = length x div 2 ^ j" by simp
    from j have "(2 :: nat) ^ j dvd 2 ^ J" by (simp add: le_imp_power_dvd)
    then have "2 ^ j dvd length x" using dv by (rule dvd_trans)
    then have "real (length x div 2 ^ j) = real (length x) / real (2 ^ j)" by (rule real_of_nat_div)
    with l show "real (length (y ! (j - 1))) = real (length x) / 2 ^ j" by simp
  qed
  with y(1,2) show "\<exists>y. dwt_arma x0 ''haar'' J boundary = Inr y \<and> length y = J \<and>
            (\<forall>j. 1 \<le> j \<and> j \<le> J \<longrightarrow> real (length (y ! (j - 1))) = real (length x) / 2 ^ j)"
    by blast
qed

theorem transform_level_lengths_witness:
  "(\<exists>y. modwt_arma [1, 2, 3, 4] ''haar'' 2 ''periodic'' = Inr y \<and> length y = 2 \<and>
        length (y ! 0) = 4 \<and> length (y ! 1) = 4) \<and>
   (\<exists>y. dwt_arma [1, 2, 3, 4] ''haar'' 2 ''periodic'' = Inr y \<and> length y = 2 \<and>
        real (length (y ! 0)) = 2 \<and> real (length (y ! 1)) = 1)"
proof -
  have b: "handle_boundary ''periodic'' [1, 2, 3, 4] = Inr [1, 2, 3, 4]"
    by (rule handle_boundary_periodic)
  have l: "length [1, 2, 3, 4 :: real] < 2 ^ 32" by simp
  have p: "2 ^ 2 \<le> length [1, 2, 3, 4 :: real]" by simp
  have "length [1, 2, 3, 4 :: real] = 2 ^ 2" by simp
  then have d: "2 ^ 2 dvd length [1, 2, 3, 4 :: real]" by (simp only: dvd_refl)
  note t = transform_level_lengths [OF b l p]
  from t obtain y where y: "modwt_arma [1, 2, 3, 4] ''haar'' 2 ''periodic'' = Inr y" "length y = 2"
    "\<forall>j. 1 \<le> j \<and> j \<le> 2 \<longrightarrow> length (y ! (j - 1)) = length [1, 2, 3, 4 :: real]" by blast
  from y(3) [rule_format, of 1] y(3) [rule_format, of 2]
  have "length (y ! 0) = 4" "length (y ! 1) = 4" by simp_all
  with y(1,2) have A: "\<exists>y. modwt_arma [1, 2, 3, 4] ''haar'' 2 ''periodic'' = Inr y \<and> length y = 2 \<and>
        length (y ! 0) = 4 \<and> length (y ! 1) = 4" by blast
  from t d obtain z where z: "dwt_arma [1, 2, 3, 4] ''haar'' 2 ''periodic'' = Inr z" "length z = 2"
    "\<forall>j. 1 \<le> j \<and> j \<le> 2 \<longrightarrow> real (length (z ! (j - 1))) = real (length [1, 2, 3, 4 :: real]) / 2 ^ j"
    by blast
  from z(3) [rule_format, of 1] z(3) [rule_format, of 2]
  have "real (length (z ! 0)) = 2" "real (length (z ! 1)) = 1" by simp_all
  with z(1,2) have B: "\<exists>y. dwt_arma [1, 2, 3, 4] ''haar'' 2 ''periodic'' = Inr y \<and> length y = 2 \<and>
        real (length (y ! 0)) = 2 \<and> real (length (y ! 1)) = 1" by blast
  from A B show ?thesis by (rule conjI)
qed

section \<open>Trimming\<close>

lemma to_uint_nat: "n < 2 ^ 32 \<Longrightarrow> to_uint (real n) = Inr n"
proof -
  assume "n < 2 ^ 32"
  then have "real n < real (2 ^ 32)" by (rule iffD2 [OF of_nat_less_iff])
  then show ?thesis by (simp add: to_uint_def)
qed

lemma to_uint_nat_big: "2 ^ 32 \<le> n \<Longrightarrow> to_uint (real n) = Inl UndefinedConversion"
proof -
  assume "2 ^ 32 \<le> n"
  then have "real (2 ^ 32) \<le> real n" by (rule iffD2 [OF of_nat_le_iff])
  then show ?thesis by (simp add: to_uint_def)
qed

lemma rows_tail: "n < length x \<Longrightarrow> rows n (usub1 (length x)) x = Inr (drop n x)"
  by (auto simp add: rows_def usub1_def)

lemma rows_none: "length x \<le> n \<Longrightarrow> rows n (usub1 (length x)) x = Inl OutOfBounds"
  by (auto simp add: rows_def usub1_def)

lemma modwt_count_real:
  assumes "1 \<le> m"
  shows "((2 :: real) ^ (j + 1) - 1) * (real_of_int m - 1) = real (modwt_count m j)"
proof -
  have "(1 :: nat) \<le> 2 ^ (j + 1)" by (rule one_le_power) simp
  then have "real (2 ^ (j + 1) - 1) = 2 ^ (j + 1) - 1" by (simp add: of_nat_diff)
  moreover have "real (nat (m - 1)) = real_of_int m - 1" using assms by simp
  ultimately show ?thesis by (simp add: modwt_count_def)
qed

lemma trim_count_other:
  "method \<noteq> ''dwt'' \<Longrightarrow>
   trim_count method m j = to_uint ((2 ^ (j + 1) - 1) * (real_of_int m - 1))"
  by (cases "to_uint ((2 ^ (j + 1) - 1) * (real_of_int m - 1))")
     (simp_all add: trim_count_def Let_def)

lemma trim_count_modwt_nat:
  "method \<noteq> ''dwt'' \<Longrightarrow> 1 \<le> m \<Longrightarrow> modwt_count m j < 2 ^ 32 \<Longrightarrow>
   trim_count method m j = Inr (modwt_count m j)"
  unfolding trim_count_other modwt_count_real by (rule to_uint_nat)

lemma dwt_count_real:
  "1 \<le> m \<Longrightarrow> of_int \<lceil>real_of_int (m - 2) * (1 - 1 / 2 ^ (j + 1))\<rceil> = real (dwt_count m j)"
proof -
  assume m: "1 \<le> m"
  have p: "(1 :: real) \<le> 2 ^ (j + 1)" by (rule one_le_power) simp
  have nn: "0 \<le> (1 - 1 / 2 ^ (j + 1) :: real)"
    using p by (simp add: field_simps del: power_Suc)
  have "- 1 < real_of_int (m - 2) * (1 - 1 / 2 ^ (j + 1))"
  proof (cases "m = 1")
    case True
    then show ?thesis by simp
  next
    case False
    with m have "0 \<le> real_of_int (m - 2)" by simp
    then have "0 \<le> real_of_int (m - 2) * (1 - 1 / 2 ^ (j + 1))"
      using nn by (rule mult_nonneg_nonneg)
    then show ?thesis by linarith
  qed
  then have "0 \<le> \<lceil>real_of_int (m - 2) * (1 - 1 / 2 ^ (j + 1))\<rceil>" by linarith
  then show ?thesis by (simp add: dwt_count_def)
qed

lemma trim_count_dwt_nat:
  "1 \<le> m \<Longrightarrow> modwt_count m j < 2 ^ 32 \<Longrightarrow> dwt_count m j < 2 ^ 32 \<Longrightarrow>
   trim_count ''dwt'' m j = Inr (dwt_count m j)"
  unfolding trim_count_def Let_def modwt_count_real dwt_count_real
  by (simp add: to_uint_nat)

lemma brick_wall_level_drop:
  "trim_count method m j = Inr n \<Longrightarrow> n < length temp \<Longrightarrow>
   brick_wall_level method m j temp = Inr (drop n temp)"
  by (simp add: brick_wall_level_def Let_def min_def rows_tail)

lemma brick_wall_level_all:
  "trim_count method m j = Inr n \<Longrightarrow> length temp \<le> n \<Longrightarrow>
   brick_wall_level method m j temp = Inl OutOfBounds"
  by (simp add: brick_wall_level_def Let_def min_def rows_none)

lemma brick_wall_loop_drop:
  "(\<And>i. i < length x \<Longrightarrow> trim_count method m (j + i) = Inr (c (j + i)) \<and> c (j + i) < length (x ! i))
   \<Longrightarrow> brick_wall_loop method m j x = Inr (map (\<lambda>i. drop (c (j + i)) (x ! i)) [0..<length x])"
proof (induction x arbitrary: j)
  case Nil
  then show ?case by simp
next
  case (Cons temp rest)
  from Cons.prems [of 0] have head: "brick_wall_level method m j temp = Inr (drop (c j) temp)"
    by (simp add: brick_wall_level_drop)
  have "brick_wall_loop method m (j + 1) rest
          = Inr (map (\<lambda>i. drop (c (j + 1 + i)) (rest ! i)) [0..<length rest])"
  proof (rule Cons.IH)
    fix i assume "i < length rest"
    with Cons.prems [of "Suc i"]
    show "trim_count method m (j + 1 + i) = Inr (c (j + 1 + i)) \<and> c (j + 1 + i) < length (rest ! i)"
      by simp
  qed
  moreover have "[0..<length (temp # rest)] = 0 # map Suc [0..<length rest]"
    by (simp add: upt_conv_Cons map_Suc_upt del: upt_Suc)
  ultimately show ?case using head
    by (simp add: comp_def del: upt_Suc)
qed

lemma brick_wall_loop_same:
  "method \<noteq> ''dwt'' \<Longrightarrow> brick_wall_loop method m j x = brick_wall_loop ''modwt'' m j x"
  by (induction x arbitrary: j) (simp_all add: brick_wall_level_def trim_count_other)

lemma brick_wall_drop:
  assumes "\<And>i. i < length x \<Longrightarrow>
             trim_count method (filt_L flt) i = Inr (c i) \<and> c i < length (x ! i)"
  shows "brick_wall x flt method = Inr (map (\<lambda>i. drop (c i) (x ! i)) [0..<length x])"
  using brick_wall_loop_drop [of x "method" "filt_L flt" 0 c] assms
  by (simp add: brick_wall_def)

lemma brick_wall_haar_example:
  "brick_wall [[1, 2, 3]] haar_filter ''modwt'' = Inr [[2, 3]]"
proof -
  have "modwt_count 2 0 = 1" by (simp add: modwt_count_def)
  then have "trim_count ''modwt'' 2 0 = Inr 1"
    using trim_count_modwt_nat [of "''modwt''" 2 0] by simp
  then have "\<And>i. i < length [[1, 2, 3 :: real]] \<Longrightarrow>
      trim_count ''modwt'' (filt_L haar_filter) i = Inr ((\<lambda>i. 1) i)
      \<and> (\<lambda>i. 1) i < length ([[1, 2, 3 :: real]] ! i)"
    by (simp add: haar_L)
  from brick_wall_drop [of "[[1, 2, 3]]" "''modwt''" haar_filter "\<lambda>i. 1", OF this]
  show ?thesis by simp
qed

lemma brick_wall_partial_trim:
  assumes m: "1 \<le> filt_L flt"
    and fit: "\<And>j. j < length x \<Longrightarrow>
                modwt_count (filt_L flt) j < 2 ^ 32 \<and> dwt_count (filt_L flt) j < 2 ^ 32"
    and short: "\<And>j. j < length x \<Longrightarrow>
                (if method = ''dwt'' then dwt_count (filt_L flt) j else modwt_count (filt_L flt) j)
                  < length (x ! j)"
  shows "brick_wall x flt method
           = Inr (map (\<lambda>j. drop (if method = ''dwt'' then dwt_count (filt_L flt) j
                                   else modwt_count (filt_L flt) j) (x ! j)) [0..<length x])"
proof (rule brick_wall_drop)
  fix i assume i: "i < length x"
  show "trim_count method (filt_L flt) i
          = Inr (if method = ''dwt'' then dwt_count (filt_L flt) i else modwt_count (filt_L flt) i)
        \<and> (if method = ''dwt'' then dwt_count (filt_L flt) i else modwt_count (filt_L flt) i)
            < length (x ! i)"
  proof (cases "method = ''dwt''")
    case True
    with m fit [OF i] short [OF i] show ?thesis by (simp add: trim_count_dwt_nat)
  next
    case False
    with m fit [OF i] short [OF i] show ?thesis by (simp add: trim_count_modwt_nat)
  qed
qed

text \<open>
  Claim C2.  Where the count stays below the length of the level,
  \<open>brick_wall_partial_trim\<close> is the claim: the level loses its first \<open>count\<close> elements.  Where the count reaches the
  length, the source clamps \<open>n\<close> to \<open>temp_size\<close> and then asks for
  \<open>temp.rows(temp_size, temp_size - 1)\<close>, a range that Armadillo refuses: the level does
  not become empty, the call fails.  One level holding one coefficient, and an empty
  level, with the Haar filter; a level of three is trimmed as claimed.
\<close>

theorem brick_wall_full_trim_fails:
  "brick_wall [[1]] haar_filter ''modwt'' = Inl OutOfBounds \<and>
   brick_wall [[1]] haar_filter ''modwt'' \<noteq> Inr [[]] \<and>
   brick_wall [[]] haar_filter ''modwt'' = Inl OutOfBounds \<and>
   brick_wall [[1, 2, 3]] haar_filter ''modwt'' = Inr [[2, 3]]"
proof -
  have t: "trim_count ''modwt'' 2 0 = Inr 1"
    using trim_count_modwt_nat [of "''modwt''" 2 0] by (simp add: modwt_count_def)
  have "brick_wall_level ''modwt'' 2 0 [1] = Inl OutOfBounds"
    by (rule brick_wall_level_all [OF t]) simp
  moreover have "brick_wall_level ''modwt'' 2 0 [] = Inl OutOfBounds"
    by (rule brick_wall_level_all [OF t]) simp
  ultimately have "brick_wall [[1]] haar_filter ''modwt'' = Inl OutOfBounds"
    and "brick_wall [[]] haar_filter ''modwt'' = Inl OutOfBounds"
    by (simp_all add: brick_wall_def haar_L)
  then show ?thesis by (simp add: brick_wall_haar_example)
qed

text \<open>
  Claim C10.  For every method other than \<open>dwt\<close> the count is the MODWT one,
  \<open>(2^(j+1) - 1) (m - 1)\<close> stored in an \<open>unsigned int\<close>, and \<open>brick_wall\<close> does exactly what
  it does for \<open>modwt\<close>: no failure comes from the method not being recognised.  In
  particular, where every level is longer than its count, the call succeeds and drops
  the first \<open>(2^(j+1) - 1) (m - 1)\<close> elements of level \<open>j\<close>.
\<close>

theorem brick_wall_unrecognised_method:
  assumes "method \<noteq> ''dwt''"
  shows "trim_count method m j = to_uint ((2 ^ (j + 1) - 1) * (real_of_int m - 1)) \<and>
         brick_wall x flt method = brick_wall x flt ''modwt'' \<and>
         (1 \<le> filt_L flt \<and>
          (\<forall>i<length x. (2 ^ (i + 1) - 1) * nat (filt_L flt - 1) < 2 ^ 32 \<and>
                         (2 ^ (i + 1) - 1) * nat (filt_L flt - 1) < length (x ! i))
          \<longrightarrow> brick_wall x flt method
                = Inr (map (\<lambda>i. drop ((2 ^ (i + 1) - 1) * nat (filt_L flt - 1)) (x ! i))
                        [0..<length x]))"
proof (intro conjI impI)
  show "trim_count method m j = to_uint ((2 ^ (j + 1) - 1) * (real_of_int m - 1))"
    using assms by (rule trim_count_other)
  show "brick_wall x flt method = brick_wall x flt ''modwt''"
    using brick_wall_loop_same [OF assms] by (simp add: brick_wall_def)
next
  assume a: "1 \<le> filt_L flt \<and>
          (\<forall>i<length x. (2 ^ (i + 1) - 1) * nat (filt_L flt - 1) < 2 ^ 32 \<and>
                         (2 ^ (i + 1) - 1) * nat (filt_L flt - 1) < length (x ! i))"
  have "brick_wall x flt method
          = Inr (map (\<lambda>i. drop (modwt_count (filt_L flt) i) (x ! i)) [0..<length x])"
  proof (rule brick_wall_drop)
    fix i assume "i < length x"
    with a have "modwt_count (filt_L flt) i < 2 ^ 32" "modwt_count (filt_L flt) i < length (x ! i)"
      by (simp_all add: modwt_count_def)
    with a assms show "trim_count method (filt_L flt) i = Inr (modwt_count (filt_L flt) i)
        \<and> modwt_count (filt_L flt) i < length (x ! i)"
      by (simp add: trim_count_modwt_nat)
  qed
  then show "brick_wall x flt method
                = Inr (map (\<lambda>i. drop ((2 ^ (i + 1) - 1) * nat (filt_L flt - 1)) (x ! i))
                        [0..<length x])"
    by (simp add: modwt_count_def)
qed

theorem brick_wall_unrecognised_method_witness:
  "trim_count ''wavelet'' 2 1 = Inr 3 \<and>
   brick_wall [[1, 2, 3], [4, 5, 6, 7]] haar_filter ''wavelet''
     = brick_wall [[1, 2, 3], [4, 5, 6, 7]] haar_filter ''modwt'' \<and>
   brick_wall [[1, 2, 3], [4, 5, 6, 7]] haar_filter ''wavelet'' = Inr [[2, 3], [7]]"
proof -
  have m: "''wavelet'' \<noteq> ''dwt''" by simp
  note t = brick_wall_unrecognised_method [OF m, of 2 1 "[[1, 2, 3], [4, 5, 6, 7]]" haar_filter]
  have u: "to_uint ((2 ^ (1 + 1) - 1) * (real_of_int 2 - 1)) = Inr 3"
    by (simp add: to_uint_def)
  have pre: "1 \<le> filt_L haar_filter \<and>
          (\<forall>i<length [[1, 2, 3], [4, 5, 6, 7 :: real]].
              (2 ^ (i + 1) - 1) * nat (filt_L haar_filter - 1) < 2 ^ 32 \<and>
              (2 ^ (i + 1) - 1) * nat (filt_L haar_filter - 1)
                 < length ([[1, 2, 3], [4, 5, 6, 7 :: real]] ! i))"
    by (simp add: haar_L less_Suc_eq)
  from t have t1: "trim_count ''wavelet'' 2 1 = to_uint ((2 ^ (1 + 1) - 1) * (real_of_int 2 - 1))"
    and t2: "brick_wall [[1, 2, 3], [4, 5, 6, 7]] haar_filter ''wavelet''
               = brick_wall [[1, 2, 3], [4, 5, 6, 7]] haar_filter ''modwt''"
    by blast+
  from t pre have "brick_wall [[1, 2, 3], [4, 5, 6, 7]] haar_filter ''wavelet''
      = Inr (map (\<lambda>i. drop ((2 ^ (i + 1) - 1) * nat (filt_L haar_filter - 1))
                       ([[1, 2, 3], [4, 5, 6, 7]] ! i))
               [0..<length [[1, 2, 3], [4, 5, 6, 7 :: real]]])"
    by blast
  then have t3: "brick_wall [[1, 2, 3], [4, 5, 6, 7]] haar_filter ''wavelet'' = Inr [[2, 3], [7]]"
    by (simp add: haar_L upt_rec)
  from t1 u have "trim_count ''wavelet'' 2 1 = Inr 3" by (rule trans)
  with t2 t3 show ?thesis by blast
qed

section \<open>The eta3 matrix\<close>

lemma ci_eta3_rows:
  assumes "length y = length dims"
  shows "ci_eta3 qchisq y dims p
           = Inr (map (\<lambda>i. eta3_row qchisq p (y ! i) (dims ! i) i) [0..<length dims])"
proof -
  have "mapE (ci_eta3_row qchisq y dims p) [0..<length dims]
          = Inr (map (\<lambda>i. (snd (eta3_row qchisq p (y ! i) (dims ! i) i))) [0..<length dims])"
    by (rule mapE_Inr) (simp add: ci_eta3_row_def elem_def assms Let_def eta3_row_def)
  moreover have "map2 (\<lambda>yi (lo, hi). (yi, lo, hi)) y
                   (map (\<lambda>i. (snd (eta3_row qchisq p (y ! i) (dims ! i) i))) [0..<length dims])
                 = map (\<lambda>i. eta3_row qchisq p (y ! i) (dims ! i) i) [0..<length dims]"
    using assms by (intro nth_equalityI) (simp_all add: eta3_row_def)
  ultimately show ?thesis using assms by (simp add: ci_eta3_def Let_def)
qed

lemma ci_eta3_mismatch:
  "length y \<noteq> length dims \<Longrightarrow> \<exists>e. ci_eta3 qchisq y dims p = Inl e"
  by (cases "mapE (ci_eta3_row qchisq y dims p) [0..<length dims]") (simp_all add: ci_eta3_def Let_def)

lemma wave_variance_rows:
  "wave_variance qchisq x ''eta3'' p
     = Inr (map (\<lambda>i. eta3_row qchisq p (level_y (x ! i)) (real (length (x ! i))) i) [0..<length x])"
proof -
  have "length (wave_variance_y x) = length (wave_variance_dims x)"
    by (simp add: wave_variance_y_def wave_variance_dims_def)
  from ci_eta3_rows [OF this] show ?thesis
    by (simp add: wave_variance_def Let_def wave_variance_y_def wave_variance_dims_def level_y_def)
qed

lemma level_y_empty: "level_y [] = NaN"
  by (simp add: level_y_def dot_def)

lemma eta3_row_NaN: "eta3_row qchisq p NaN d i = (NaN, NaN, NaN)"
  by (simp add: eta3_row_def)

lemma eta3_df_ge1: "1 \<le> eta3_df d i"
  by (simp add: eta3_df_def)

lemma eta3_row_order:
  assumes "0 < v" "qchisq p (eta3_df d i) = Val lo" "qchisq (1 - p) (eta3_df d i) = Val hi"
    "0 < lo" "lo \<le> eta3_df d i" "eta3_df d i \<le> hi"
  shows "eta3_row qchisq p (Val v) d i = (Val v, Val (eta3_df d i * v / hi), Val (eta3_df d i * v / lo))
         \<and> eta3_df d i * v / hi \<le> v \<and> v \<le> eta3_df d i * v / lo"
proof -
  let ?e = "eta3_df d i"
  have e: "1 \<le> ?e" by (rule eta3_df_ge1)
  with assms have hi: "0 < hi" by linarith
  have "?e * v \<le> hi * v" using assms by (intro mult_right_mono) simp_all
  then have a: "?e * v / hi \<le> v" using hi by (simp add: field_simps)
  have "lo * v \<le> ?e * v" using assms by (intro mult_right_mono) simp_all
  then have b: "v \<le> ?e * v / lo" using \<open>0 < lo\<close> by (simp add: field_simps)
  from a b assms hi show ?thesis by (simp add: eta3_row_def)
qed

text \<open>
  Claim C1, as the code has it.  \<open>wave_variance\<close> computes row \<open>i\<close> with the degrees of
  freedom \<open>max(M / 2^(i+1), 1)\<close>, where \<open>M\<close> is the number of elements of the level it is
  handed, that is of the trimmed level; both quantile calls receive this value.
\<close>

theorem wave_variance_degrees_of_freedom:
  "wave_variance qchisq x ''eta3'' p =
     Inr (map (\<lambda>i. let M = real (length (x ! i));
                       eta3 = max (M / 2 ^ (i + 1)) 1;
                       v = ddiv (Val (dot (x ! i) (x ! i))) (Val M)
                   in (v, ddiv (dmul (Val eta3) v) (qchisq (1 - p) eta3),
                          ddiv (dmul (Val eta3) v) (qchisq p eta3)))
           [0..<length x])"
proof -
  have "wave_variance qchisq x ''eta3'' p
          = Inr (map (\<lambda>i. eta3_row qchisq p (level_y (x ! i)) (real (length (x ! i))) i)
                  [0..<length x])"
    by (rule wave_variance_rows)
  moreover have "\<And>i. eta3_row qchisq p (level_y (x ! i)) (real (length (x ! i))) i
      = (let M = real (length (x ! i));
             eta3 = max (M / 2 ^ (i + 1)) 1;
             v = ddiv (Val (dot (x ! i) (x ! i))) (Val M)
         in (v, ddiv (dmul (Val eta3) v) (qchisq (1 - p) eta3),
                ddiv (dmul (Val eta3) v) (qchisq p eta3)))"
    by (simp add: eta3_row_def level_y_def eta3_df_def Let_def)
  ultimately show ?thesis by simp
qed

theorem wave_variance_degrees_of_freedom_witness:
  "wave_variance (\<lambda>q df. Val (q + df)) [[1, 1, 1]] ''eta3'' (25 / 1000)
     = Inr [(Val 1, Val ((3 / 2) / (975 / 1000 + 3 / 2)), Val ((3 / 2) / (25 / 1000 + 3 / 2)))]"
  using wave_variance_degrees_of_freedom [of "\<lambda>q df. Val (q + df)" "[[1, 1, 1]]" "25 / 1000"]
  by (simp add: dot_def)

text \<open>
  The claim as it was stated takes \<open>M\<close> before trimming.  A level of four coefficients
  is trimmed to three by the Haar filter; the degrees of freedom are then \<open>3/2\<close>, not
  \<open>max(4/2, 1) = 2\<close>.  With a quantile function that returns the sum of its two
  arguments the bounds show which value it was called with.
\<close>

theorem eta3_df_pretrim_counterexample:
  "brick_wall [[1, 1, 1, 1]] haar_filter ''modwt'' = Inr [[1, 1, 1]] \<and>
   wave_variance_dims [[1, 1, 1]] = [3] \<and>
   eta3_df (wave_variance_dims [[1, 1, 1]] ! 0) 0 = 3 / 2 \<and>
   eta3_df (real (length ([[1, 1, 1, 1 :: real]] ! 0))) 0 = 2 \<and>
   wave_variance (\<lambda>q df. Val (q + df)) [[1, 1, 1]] ''eta3'' (25 / 1000)
     \<noteq> Inr [(Val 1, Val (2 / (975 / 1000 + 2)), Val (2 / (25 / 1000 + 2)))]"
proof -
  have "modwt_count 2 0 = 1" by (simp add: modwt_count_def)
  then have "trim_count ''modwt'' 2 0 = Inr 1"
    using trim_count_modwt_nat [of "''modwt''" 2 0] by simp
  then have "\<And>i. i < length [[1, 1, 1, 1 :: real]] \<Longrightarrow>
      trim_count ''modwt'' (filt_L haar_filter) i = Inr ((\<lambda>i. 1) i)
      \<and> (\<lambda>i. 1) i < length ([[1, 1, 1, 1 :: real]] ! i)"
    by (simp add: haar_L)
  from brick_wall_drop [of "[[1, 1, 1, 1]]" "''modwt''" haar_filter "\<lambda>i. 1", OF this]
  have a: "brick_wall [[1, 1, 1, 1]] haar_filter ''modwt'' = Inr [[1, 1, 1]]" by simp
  have b: "wave_variance (\<lambda>q df. Val (q + df)) [[1, 1, 1]] ''eta3'' (25 / 1000)
     \<noteq> Inr [(Val 1, Val (2 / (975 / 1000 + 2)), Val (2 / (25 / 1000 + 2)))]"
    by (simp add: wave_variance_rows eta3_row_def level_y_def eta3_df_def dot_def)
  from a b show ?thesis by (simp add: wave_variance_dims_def eta3_df_def)
qed

text \<open>
  Claim C9.  With the type \<open>eta3\<close>, \<open>wave_variance\<close> returns a matrix for every
  decomposition, one row per level; the variance of a level is its dot product with itself
  divided by its number of elements, also when that number is zero, and the row of an empty
  level is not-a-number throughout.  The only failure of \<open>wave_variance\<close> is the one for a
  type other than \<open>eta3\<close>.
\<close>

theorem wave_variance_empty_level:
  "(\<exists>r. wave_variance qchisq x ''eta3'' p = Inr r \<and> length r = length x \<and>
        (\<forall>i<length x.
            fst (r ! i) = ddiv (Val (dot (x ! i) (x ! i))) (Val (real (length (x ! i)))) \<and>
            (x ! i = [] \<longrightarrow> r ! i = (NaN, NaN, NaN)))) \<and>
   (\<forall>e. wave_variance qchisq x type_name p = Inl e
          \<longrightarrow> e = UnsupportedCIType \<and> type_name \<noteq> ''eta3'')"
proof (rule conjI)
  let ?r = "map (\<lambda>i. eta3_row qchisq p (level_y (x ! i)) (real (length (x ! i))) i) [0..<length x]"
  have "\<forall>i<length x.
            fst (?r ! i) = ddiv (Val (dot (x ! i) (x ! i))) (Val (real (length (x ! i)))) \<and>
            (x ! i = [] \<longrightarrow> ?r ! i = (NaN, NaN, NaN))"
    by (simp add: eta3_row_def level_y_def dot_def)
  then show "\<exists>r. wave_variance qchisq x ''eta3'' p = Inr r \<and> length r = length x \<and>
        (\<forall>i<length x.
            fst (r ! i) = ddiv (Val (dot (x ! i) (x ! i))) (Val (real (length (x ! i)))) \<and>
            (x ! i = [] \<longrightarrow> r ! i = (NaN, NaN, NaN)))"
    using wave_variance_rows [of qchisq x p] by (intro exI [of _ ?r]) simp
next
  show "\<forall>e. wave_variance qchisq x type_name p = Inl e
          \<longrightarrow> e = UnsupportedCIType \<and> type_name \<noteq> ''eta3''"
  proof (intro allI impI)
    fix e assume e: "wave_variance qchisq x type_name p = Inl e"
    show "e = UnsupportedCIType \<and> type_name \<noteq> ''eta3''"
    proof (cases "type_name = ''eta3''")
      case True
      with e show ?thesis by (simp add: wave_variance_rows)
    next
      case False
      with e show ?thesis by (simp add: wave_variance_def Let_def)
    qed
  qed
qed

theorem wave_variance_empty_level_witness:
  "\<exists>r. wave_variance (\<lambda>q df. Val 1) [[], [3]] ''eta3'' (25 / 1000) = Inr r \<and> length r = 2 \<and>
       r ! 0 = (NaN, NaN, NaN) \<and> fst (r ! 1) = Val 9"
proof -
  from wave_variance_empty_level [of "\<lambda>q df. Val 1" "[[], [3]]" "25 / 1000"]
  obtain r where r: "wave_variance (\<lambda>q df. Val 1) [[], [3]] ''eta3'' (25 / 1000) = Inr r"
    "length r = length [[], [3 :: real]]"
    "\<forall>i<length [[], [3 :: real]].
        fst (r ! i) = ddiv (Val (dot ([[], [3]] ! i) ([[], [3]] ! i)))
                           (Val (real (length ([[], [3 :: real]] ! i)))) \<and>
        ([[], [3 :: real]] ! i = [] \<longrightarrow> r ! i = (NaN, NaN, NaN))"
    by blast
  from r(3) [rule_format, of 0] r(3) [rule_format, of 1]
  have "r ! 0 = (NaN, NaN, NaN)" "fst (r ! 1) = Val 9" by (simp_all add: dot_def)
  with r(1,2) show ?thesis by simp
qed

text \<open>
  Claim C7.  Let the quantile function have the standard properties of the chi-squared
  quantiles at \<open>p = 0.025\<close>: for every \<open>df \<ge> 1\<close> the lower quantile is positive and at most
  \<open>df\<close>, the upper one at least \<open>df\<close>.  Then for a level with a positive variance \<open>v\<close> the
  degrees of freedom are at least 1 and the row is \<open>(v, l, u)\<close> with \<open>l \<le> v \<le> u\<close>.
\<close>

theorem eta3_interval_ordered:
  assumes std: "\<And>df. 1 \<le> df \<Longrightarrow>
        \<exists>lo hi. qchisq (25 / 1000) df = Val lo \<and> qchisq (1 - 25 / 1000) df = Val hi \<and>
                0 < lo \<and> lo \<le> df \<and> df \<le> hi"
    and len: "length y = length dims" and i: "i < length dims"
    and v: "y ! i = Val v" "0 < v"
  shows "1 \<le> eta3_df (dims ! i) i \<and>
         (\<exists>r l u. ci_eta3 qchisq y dims (25 / 1000) = Inr r \<and>
                  r ! i = (Val v, Val l, Val u) \<and> l \<le> v \<and> v \<le> u)"
proof -
  let ?e = "eta3_df (dims ! i) i"
  have e: "1 \<le> ?e" by (rule eta3_df_ge1)
  from std [OF e] obtain lo hi where q: "qchisq (25 / 1000) ?e = Val lo"
    "qchisq (1 - 25 / 1000) ?e = Val hi" "0 < lo" "lo \<le> ?e" "?e \<le> hi" by blast
  from eta3_row_order [of v qchisq "25 / 1000" "dims ! i" i lo hi, OF v(2) q(1,2,3,4,5)]
  have row: "eta3_row qchisq (25 / 1000) (Val v) (dims ! i) i
               = (Val v, Val (?e * v / hi), Val (?e * v / lo))"
    and ord: "?e * v / hi \<le> v" "v \<le> ?e * v / lo" by blast+
  let ?r = "map (\<lambda>i. eta3_row qchisq (25 / 1000) (y ! i) (dims ! i) i) [0..<length dims]"
  have "ci_eta3 qchisq y dims (25 / 1000) = Inr ?r" using len by (rule ci_eta3_rows)
  moreover have "?r ! i = (Val v, Val (?e * v / hi), Val (?e * v / lo))"
    using i v(1) row by simp
  ultimately show ?thesis using e ord by blast
qed

theorem eta3_interval_ordered_witness:
  "\<exists>r l u. ci_eta3 (\<lambda>q df. Val (if q < (1 / 2 :: real) then df / 2 else 2 * df)) [Val 3] [16] (25 / 1000) = Inr r \<and>
           r ! 0 = (Val 3, Val l, Val u) \<and> l \<le> 3 \<and> 3 \<le> u"
proof -
  have std: "\<And>df :: real. 1 \<le> df \<Longrightarrow>
        \<exists>lo hi. (\<lambda>q df. Val (if q < (1 / 2 :: real) then df / 2 else 2 * df)) (25 / 1000 :: real) df = Val lo \<and>
                (\<lambda>q df. Val (if q < (1 / 2 :: real) then df / 2 else 2 * df)) (1 - 25 / 1000) df = Val hi \<and>
                0 < lo \<and> lo \<le> df \<and> df \<le> hi"
  proof -
    fix df :: real assume "1 \<le> df"
    then have "0 < df / 2 \<and> df / 2 \<le> df \<and> df \<le> 2 * df" by simp
    then show "\<exists>lo hi. (\<lambda>q df. Val (if q < (1 / 2 :: real) then df / 2 else 2 * df)) (25 / 1000 :: real) df = Val lo \<and>
                (\<lambda>q df. Val (if q < (1 / 2 :: real) then df / 2 else 2 * df)) (1 - 25 / 1000) df = Val hi \<and>
                0 < lo \<and> lo \<le> df \<and> df \<le> hi"
      by (intro exI [of _ "df / 2"] exI [of _ "2 * df"]) simp
  qed
  have len: "length [Val 3] = length [16 :: real]" by simp
  have i: "0 < length [16 :: real]" by simp
  have v: "[Val 3] ! 0 = Val 3" "(0 :: real) < 3" by simp_all
  from eta3_interval_ordered [of "\<lambda>q df. Val (if q < (1 / 2 :: real) then df / 2 else 2 * df)", OF std len i v]
  show ?thesis by blast
qed

section \<open>The autocovariance at lag 0\<close>

text \<open>
  The sum of the squared magnitudes of the transform of \<open>N\<close> real values is \<open>N\<close> times
  the sum of their squares; the roots of unity cancel.
\<close>

lemma root_of_unity_sum:
  fixes d :: int and N :: nat
  assumes "d \<noteq> 0" "\<bar>d\<bar> < int N"
  shows "(\<Sum>k<N. cis (2 * pi * real k * real_of_int d / real N)) = 0"
proof -
  from assms have N: "0 < N" by linarith
  let ?r = "cis (2 * pi * real_of_int d / real N)"
  have ne: "?r \<noteq> 1"
  proof
    assume "?r = 1"
    then have "cos (2 * pi * real_of_int d / real N) = 1" by (simp add: cis.ctr complex_eq_iff)
    then obtain m :: int where m: "2 * pi * real_of_int d / real N = real_of_int m * 2 * pi"
      unfolding cos_one_2pi_int by blast
    then have "(2 * pi) * (real_of_int d / real N) = (2 * pi) * real_of_int m"
      by (simp add: algebra_simps)
    moreover have "2 * pi \<noteq> 0" by simp
    ultimately have "real_of_int d / real N = real_of_int m"
      using mult_left_cancel [of "2 * pi" "real_of_int d / real N" "real_of_int m"] by blast
    then have "real_of_int d = real_of_int m * real N" using N by (simp add: field_simps)
    then have "real_of_int d = real_of_int (m * int N)" by simp
    then have dm: "d = m * int N" by (simp only: of_int_eq_iff)
    show False
    proof (cases "m = 0")
      case True
      with dm assms(1) show False by simp
    next
      case False
      then have "1 \<le> \<bar>m\<bar>" by linarith
      then have "int N \<le> \<bar>m\<bar> * int N" by (simp add: mult_le_cancel_right1)
      also have "\<dots> = \<bar>d\<bar>" using dm by (simp add: abs_mult)
      finally show False using assms(2) by linarith
    qed
  qed
  have pw: "?r ^ N = 1"
  proof -
    have "?r ^ N = cis (real N * (2 * pi * real_of_int d / real N))" by (rule DeMoivre)
    also have "real N * (2 * pi * real_of_int d / real N) = 2 * pi * real_of_int d"
      using N by simp
    also have "cis (2 * pi * real_of_int d) = 1" by (rule cis_multiple_2pi) simp
    finally show ?thesis .
  qed
  have "(\<Sum>k<N. cis (2 * pi * real k * real_of_int d / real N)) = (\<Sum>k<N. ?r ^ k)"
  proof (rule sum.cong)
    fix k
    have "?r ^ k = cis (real k * (2 * pi * real_of_int d / real N))" by (rule DeMoivre)
    then show "cis (2 * pi * real k * real_of_int d / real N) = ?r ^ k"
      by (simp add: mult.commute mult.left_commute)
  qed simp
  also have "\<dots> = (?r ^ N - 1) / (?r - 1)" using ne by (rule geometric_sum)
  also have "\<dots> = 0" by (simp add: pw)
  finally show ?thesis .
qed

lemma root_of_unity_delta:
  fixes s t N :: nat
  assumes "s < N" "t < N"
  shows "(\<Sum>k<N. cis (- (2 * pi * real k * real s / real N)) * cis (2 * pi * real k * real t / real N))
           = (if s = t then of_nat N else 0)"
proof -
  have eq: "\<And>k. cis (- (2 * pi * real k * real s / real N)) * cis (2 * pi * real k * real t / real N)
          = cis (2 * pi * real k * real_of_int (int t - int s) / real N)"
    unfolding cis_mult
    by (rule arg_cong [of _ _ cis]) (simp add: algebra_simps diff_divide_distrib)
  show ?thesis
  proof (cases "s = t")
    case True
    then show ?thesis by (simp add: cis_mult)
  next
    case False
    then have "int t - int s \<noteq> 0" by simp
    moreover have "\<bar>int t - int s\<bar> < int N" using assms by linarith
    ultimately have "(\<Sum>k<N. cis (2 * pi * real k * real_of_int (int t - int s) / real N)) = 0"
      by (rule root_of_unity_sum)
    with False show ?thesis by (simp only: eq if_False)
  qed
qed

lemma dft_energy:
  fixes a :: "nat \<Rightarrow> real" and N :: nat
  shows "(\<Sum>k<N. (\<Sum>s<N. complex_of_real (a s) * cis (- (2 * pi * real k * real s / real N)))
              * cnj (\<Sum>t<N. complex_of_real (a t) * cis (- (2 * pi * real k * real t / real N))))
         = of_nat N * (\<Sum>s<N. complex_of_real ((a s)\<^sup>2))"
proof -
  have "(\<Sum>k<N. (\<Sum>s<N. complex_of_real (a s) * cis (- (2 * pi * real k * real s / real N)))
              * cnj (\<Sum>t<N. complex_of_real (a t) * cis (- (2 * pi * real k * real t / real N))))
      = (\<Sum>k<N. \<Sum>s<N. \<Sum>t<N. complex_of_real (a s * a t) *
            (cis (- (2 * pi * real k * real s / real N)) * cis (2 * pi * real k * real t / real N)))"
  proof (rule sum.cong [OF refl])
    fix k
    have "cnj (\<Sum>t<N. complex_of_real (a t) * cis (- (2 * pi * real k * real t / real N)))
            = (\<Sum>t<N. complex_of_real (a t) * cis (2 * pi * real k * real t / real N))"
      by (simp add: cis_cnj)
    then have "(\<Sum>s<N. complex_of_real (a s) * cis (- (2 * pi * real k * real s / real N)))
              * cnj (\<Sum>t<N. complex_of_real (a t) * cis (- (2 * pi * real k * real t / real N)))
        = (\<Sum>s<N. \<Sum>t<N. (complex_of_real (a s) * cis (- (2 * pi * real k * real s / real N)))
                           * (complex_of_real (a t) * cis (2 * pi * real k * real t / real N)))"
      by (simp only: sum_product)
    also have "\<dots> = (\<Sum>s<N. \<Sum>t<N. complex_of_real (a s * a t) *
            (cis (- (2 * pi * real k * real s / real N)) * cis (2 * pi * real k * real t / real N)))"
      by (intro sum.cong refl) (simp add: mult_ac)
    finally show "(\<Sum>s<N. complex_of_real (a s) * cis (- (2 * pi * real k * real s / real N)))
              * cnj (\<Sum>t<N. complex_of_real (a t) * cis (- (2 * pi * real k * real t / real N)))
        = (\<Sum>s<N. \<Sum>t<N. complex_of_real (a s * a t) *
            (cis (- (2 * pi * real k * real s / real N)) * cis (2 * pi * real k * real t / real N)))" .
  qed
  also have "\<dots> = (\<Sum>s<N. \<Sum>k<N. \<Sum>t<N. complex_of_real (a s * a t) *
            (cis (- (2 * pi * real k * real s / real N)) * cis (2 * pi * real k * real t / real N)))"
    by (rule sum.swap)
  also have "\<dots> = (\<Sum>s<N. \<Sum>t<N. \<Sum>k<N. complex_of_real (a s * a t) *
            (cis (- (2 * pi * real k * real s / real N)) * cis (2 * pi * real k * real t / real N)))"
    by (rule sum.cong [OF refl]) (rule sum.swap)
  also have "\<dots> = (\<Sum>s<N. \<Sum>t<N. complex_of_real (a s * a t) * (if s = t then of_nat N else 0))"
  proof (intro sum.cong refl)
    fix s t assume "s \<in> {..<N}" "t \<in> {..<N}"
    then have "s < N" "t < N" by simp_all
    from root_of_unity_delta [OF this]
    show "(\<Sum>k<N. complex_of_real (a s * a t) *
            (cis (- (2 * pi * real k * real s / real N)) * cis (2 * pi * real k * real t / real N)))
          = complex_of_real (a s * a t) * (if s = t then of_nat N else 0)"
      by (simp only: sum_distrib_left [symmetric])
  qed
  also have "\<dots> = (\<Sum>s<N. complex_of_real (a s * a s) * of_nat N)"
  proof (intro sum.cong refl)
    fix s assume "s \<in> {..<N}"
    have "(\<Sum>t<N. complex_of_real (a s * a t) * (if s = t then of_nat N else 0))
            = (\<Sum>t\<in>{..<N}. if s = t then complex_of_real (a s * a t) * of_nat N else 0)"
      by (rule sum.cong) simp_all
    also have "\<dots> = complex_of_real (a s * a s) * of_nat N"
      using \<open>s \<in> {..<N}\<close> by (simp add: sum.delta')
    finally show "(\<Sum>t<N. complex_of_real (a s * a t) * (if s = t then of_nat N else 0))
            = complex_of_real (a s * a s) * of_nat N" .
  qed
  also have "\<dots> = of_nat N * (\<Sum>s<N. complex_of_real ((a s)\<^sup>2))"
    by (simp add: sum_distrib_left power2_eq_square mult.commute)
  finally show ?thesis .
qed

lemma fft_length: "length (fft x) = length x"
  by (simp add: fft_def Let_def)

lemma ifft_length: "length (ifft X) = length X"
  by (simp add: ifft_def Let_def)

lemma fft_nth:
  "k < length x \<Longrightarrow>
   fft x ! k = (\<Sum>t<length x. x ! t * cis (- (2 * pi * real k * real t / real (length x))))"
  by (simp add: fft_def Let_def)

lemma ifft_nth0:
  "0 < length X \<Longrightarrow> ifft X ! 0 = (\<Sum>k<length X. X ! k) / of_nat (length X)"
  by (simp add: ifft_def Let_def)

lemma rows_head: "0 < n \<Longrightarrow> n \<le> length out \<Longrightarrow> rows 0 (usub1 n) out = Inr (take n out)"
  by (auto simp add: rows_def usub1_def)

lemma padded_square_sum:
  fixes x0 :: "real list"
  shows "(\<Sum>s<2 * length x0. ((x0 @ replicate (length x0) 0) ! s)\<^sup>2) = (\<Sum>s<length x0. (x0 ! s)\<^sup>2)"
proof -
  let ?n = "length x0"
  let ?x = "x0 @ replicate ?n 0"
  have "(\<Sum>s = 0..<?n. (?x ! s)\<^sup>2) + (\<Sum>s = ?n..<2 * ?n. (?x ! s)\<^sup>2)
          = (\<Sum>s = 0..<2 * ?n. (?x ! s)\<^sup>2)"
    by (rule sum.atLeastLessThan_concat) simp_all
  then have "(\<Sum>s<2 * ?n. (?x ! s)\<^sup>2) = (\<Sum>s<?n. (?x ! s)\<^sup>2) + (\<Sum>s = ?n..<2 * ?n. (?x ! s)\<^sup>2)"
    by (simp only: lessThan_atLeast0)
  moreover have "(\<Sum>s<?n. (?x ! s)\<^sup>2) = (\<Sum>s<?n. (x0 ! s)\<^sup>2)"
    by (rule sum.cong) (simp_all add: nth_append)
  moreover have "(\<Sum>s = ?n..<2 * ?n. (?x ! s)\<^sup>2) = 0"
    by (rule sum.neutral) (auto simp add: nth_append)
  ultimately show ?thesis by simp
qed

lemma square_sum_list: "(\<Sum>s<length x0. (x0 ! s)\<^sup>2) = sum_list (map (\<lambda>v. v\<^sup>2) x0)" for x0 :: "real list"
proof -
  have "sum_list (map (\<lambda>v. v\<^sup>2) x0) = (\<Sum>i = 0..<length (map (\<lambda>v. v\<^sup>2) x0). map (\<lambda>v. v\<^sup>2) x0 ! i)"
    by (rule sum_list_sum_nth)
  also have "\<dots> = (\<Sum>i = 0..<length x0. (x0 ! i)\<^sup>2)" by simp
  also have "\<dots> = (\<Sum>s<length x0. (x0 ! s)\<^sup>2)" by (simp add: atLeast0LessThan)
  finally show ?thesis by simp
qed

text \<open>
  Claim C8, as the code has it.  For every non-empty real sequence \<open>x0\<close> of length \<open>n\<close>,
  \<open>dft_acf\<close> returns \<open>n\<close> entries, and the entry at lag 0 is the sum of the squares of
  \<open>x0\<close> divided by \<open>n\<close>.
\<close>

theorem dft_acf_lag0:
  assumes "x0 \<noteq> []"
  shows "\<exists>out. dft_acf x0 = Inr out \<and> length out = length x0 \<and>
           out ! 0 = sum_list (map (\<lambda>v. v\<^sup>2) x0) / real (length x0)"
proof -
  let ?n = "length x0"
  let ?x = "x0 @ replicate ?n 0"
  let ?cx = "map complex_of_real ?x"
  let ?ff = "fft ?cx"
  let ?iff = "map (\<lambda>z. complex_of_real ((Re z)\<^sup>2 + (Im z)\<^sup>2)) ?ff"
  let ?out = "map (\<lambda>z. Re z / real ?n) (ifft ?iff)"
  from assms have n: "0 < ?n" by simp
  have len: "length ?cx = 2 * ?n" by simp
  have lout: "length ?out = 2 * ?n" by (simp add: ifft_length fft_length)
  have iffk: "\<And>k. k < 2 * ?n \<Longrightarrow> ?iff ! k =
      (\<Sum>s<2 * ?n. complex_of_real (?x ! s) * cis (- (2 * pi * real k * real s / real (2 * ?n))))
      * cnj (\<Sum>t<2 * ?n. complex_of_real (?x ! t) * cis (- (2 * pi * real k * real t / real (2 * ?n))))"
  proof -
    fix k assume k: "k < 2 * ?n"
    then have "?ff ! k = (\<Sum>t<length ?cx. ?cx ! t * cis (- (2 * pi * real k * real t / real (length ?cx))))"
      by (intro fft_nth) simp
    also have "\<dots> = (\<Sum>t<2 * ?n. complex_of_real (?x ! t) * cis (- (2 * pi * real k * real t / real (2 * ?n))))"
      unfolding len
    proof (rule sum.cong [OF refl])
      fix t assume "t \<in> {..<2 * ?n}"
      then have "t < length ?x" by simp
      then have "?cx ! t = complex_of_real (?x ! t)" by (rule nth_map)
      then show "?cx ! t * cis (- (2 * pi * real k * real t / real (2 * ?n)))
          = complex_of_real (?x ! t) * cis (- (2 * pi * real k * real t / real (2 * ?n)))"
        by (simp only:)
    qed
    finally have f: "?ff ! k = (\<Sum>t<2 * ?n. complex_of_real (?x ! t) * cis (- (2 * pi * real k * real t / real (2 * ?n))))" .
    have "?iff ! k = complex_of_real ((Re (?ff ! k))\<^sup>2 + (Im (?ff ! k))\<^sup>2)"
      using k by (simp add: fft_length)
    also have "\<dots> = ?ff ! k * cnj (?ff ! k)" by (rule complex_mult_cnj [symmetric])
    finally show "?iff ! k =
      (\<Sum>s<2 * ?n. complex_of_real (?x ! s) * cis (- (2 * pi * real k * real s / real (2 * ?n))))
      * cnj (\<Sum>t<2 * ?n. complex_of_real (?x ! t) * cis (- (2 * pi * real k * real t / real (2 * ?n))))"
      unfolding f .
  qed
  have "(\<Sum>k<2 * ?n. ?iff ! k) =
      (\<Sum>k<2 * ?n. (\<Sum>s<2 * ?n. complex_of_real (?x ! s) * cis (- (2 * pi * real k * real s / real (2 * ?n))))
      * cnj (\<Sum>t<2 * ?n. complex_of_real (?x ! t) * cis (- (2 * pi * real k * real t / real (2 * ?n)))))"
  proof (rule sum.cong [OF refl])
    fix k assume "k \<in> {..<2 * ?n}"
    then have "k < 2 * ?n" by simp
    then show "?iff ! k =
      (\<Sum>s<2 * ?n. complex_of_real (?x ! s) * cis (- (2 * pi * real k * real s / real (2 * ?n))))
      * cnj (\<Sum>t<2 * ?n. complex_of_real (?x ! t) * cis (- (2 * pi * real k * real t / real (2 * ?n))))"
      by (rule iffk)
  qed
  also have "\<dots> = of_nat (2 * ?n) * (\<Sum>s<2 * ?n. complex_of_real ((?x ! s)\<^sup>2))"
    by (rule dft_energy)
  also have "(\<Sum>s<2 * ?n. complex_of_real ((?x ! s)\<^sup>2)) = complex_of_real (\<Sum>s<2 * ?n. (?x ! s)\<^sup>2)"
    by simp
  finally have energy: "(\<Sum>k<2 * ?n. ?iff ! k)
      = of_nat (2 * ?n) * complex_of_real (sum_list (map (\<lambda>v. v\<^sup>2) x0))"
    by (simp only: padded_square_sum square_sum_list)
  have liff: "length ?iff = 2 * ?n" by (simp add: fft_length)
  have "ifft ?iff ! 0 = (\<Sum>k<length ?iff. ?iff ! k) / of_nat (length ?iff)"
    using n by (intro ifft_nth0) (simp add: fft_length)
  also have "\<dots> = (\<Sum>k<2 * ?n. ?iff ! k) / of_nat (2 * ?n)" by (simp only: liff)
  also have "\<dots> = complex_of_real (sum_list (map (\<lambda>v. v\<^sup>2) x0))"
    using n by (simp only: energy) simp
  finally have i0: "ifft ?iff ! 0 = complex_of_real (sum_list (map (\<lambda>v. v\<^sup>2) x0))" .
  have out0: "?out ! 0 = sum_list (map (\<lambda>v. v\<^sup>2) x0) / real ?n"
  proof -
    have "0 < length (ifft ?iff)" using n by (simp add: ifft_length fft_length)
    then have "?out ! 0 = Re (ifft ?iff ! 0) / real ?n" by (rule nth_map)
    then show ?thesis by (simp only: i0 Re_complex_of_real)
  qed
  have "?n \<le> length ?out" unfolding lout by simp
  with n have r: "rows 0 (usub1 ?n) ?out = Inr (take ?n ?out)" by (rule rows_head)
  have "dft_acf x0 = Inr (take ?n ?out)"
    unfolding dft_acf_def Let_def by (rule r)
  moreover have "length (take ?n ?out) = ?n" using lout by simp
  moreover have "take ?n ?out ! 0 = sum_list (map (\<lambda>v. v\<^sup>2) x0) / real ?n"
    using n out0 by simp
  ultimately show ?thesis by blast
qed

theorem dft_acf_lag0_witness:
  "\<exists>out. dft_acf [3, 4] = Inr out \<and> length out = 2 \<and> out ! 0 = 25 / 2"
proof -
  have "[3, 4 :: real] \<noteq> []" by simp
  from dft_acf_lag0 [OF this] obtain out where
    "dft_acf [3, 4] = Inr out" "length out = length [3, 4 :: real]"
    "out ! 0 = sum_list (map (\<lambda>v. v\<^sup>2) [3, 4]) / real (length [3, 4 :: real])"
    by blast
  then have "dft_acf [3, 4] = Inr out \<and> length out = 2 \<and> out ! 0 = 25 / 2" by simp
  then show ?thesis ..
qed

text \<open>
  On the empty sequence the source asks for \<open>out.rows(0, n-1)\<close> with \<open>n = 0\<close>: no
  sequence is returned.
\<close>

theorem dft_acf_empty_counterexample: "dft_acf [] = Inl OutOfBounds"
  by (simp add: dft_acf_def rows_def usub1_def ifft_length fft_length Let_def)

section \<open>The orchestrator\<close>

lemma nb_level_of_ok:
  assumes "0 < N" "N < 2 ^ 32"
  shows "nb_level_of N = Inr (nat \<lfloor>log 2 (real N)\<rfloor>) \<and>
         2 ^ nat \<lfloor>log 2 (real N)\<rfloor> \<le> N \<and> N < 2 ^ (nat \<lfloor>log 2 (real N)\<rfloor> + 1)"
proof -
  let ?L = "nat \<lfloor>log 2 (real N)\<rfloor>"
  from assms(1) have "1 \<le> real N" by simp
  then have "0 \<le> log 2 (real N)" by simp
  then have nn: "0 \<le> \<lfloor>log 2 (real N)\<rfloor>" by simp
  then have "int ?L = \<lfloor>log 2 (real N)\<rfloor>" by (rule nat_0_le)
  then have fl: "\<lfloor>log (real (2 :: nat)) (real N)\<rfloor> = int ?L" by (simp only: of_nat_numeral)
  have "(2 :: nat) \<le> 2" by simp
  from iffD1 [OF floor_log_nat_eq_powr_iff [OF this assms(1)] fl]
  have b: "2 ^ ?L \<le> N \<and> N < 2 ^ (?L + 1)" .
  then have "(2 :: nat) ^ ?L < 2 ^ 32" using assms(2) by linarith
  then have "?L < 32" by (simp only: power_strict_increasing_iff one_less_numeral_iff semiring_norm)
  then have "?L < 2 ^ 32" by simp
  then have u: "to_uint (real ?L) = Inr ?L" by (rule to_uint_nat)
  have eq: "real_of_int \<lfloor>log 2 (real N)\<rfloor> = real ?L"
    using nn by (simp only: of_nat_nat)
  have "nb_level_of N = to_uint (real_of_int \<lfloor>log 2 (real N)\<rfloor>)"
    using assms(1) by (simp add: nb_level_of_def)
  also have "\<dots> = to_uint (real ?L)" by (simp only: eq)
  also note u
  finally have "nb_level_of N = Inr ?L" .
  with b show ?thesis by blast
qed

lemma gauss_part_no:
  "compute_v \<noteq> ''full'' \<Longrightarrow> compute_v \<noteq> ''diag'' \<Longrightarrow>
   gauss_part qnorm p compute_v nb W col0
     = Inr (diagmat (replicate nb (Val 1)), replicate nb NaN, replicate nb NaN)"
  by (simp add: gauss_part_def Let_def)

lemma diagmat_ones:
  "diagmat (replicate nb (Val 1))
     = map (\<lambda>i. map (\<lambda>k. if i = k then Val 1 else Val 0) [0..<nb]) [0..<nb]"
  by (simp add: diagmat_def)

lemma scales_shift: "map (\<lambda>i. (2 :: real) ^ (i + 1)) [0..<nb] = map (\<lambda>j. 2 ^ j) [1..<nb + 1]"
proof -
  have "[1..<nb + 1] = map Suc [0..<nb]" by (simp add: map_Suc_upt)
  then show ?thesis by (simp add: comp_def)
qed

lemma orchestrator_pipeline:
  fixes signal :: "real list"
  assumes "signal \<noteq> []" "length signal < 2 ^ 32"
  shows "\<exists>W. nb_level_of (length signal) = Inr (nat \<lfloor>log 2 (real (length signal))\<rfloor>) \<and>
           modwt_arma signal ''haar'' (nat \<lfloor>log 2 (real (length signal))\<rfloor>) ''periodic'' = Inr W \<and>
           length W = nat \<lfloor>log 2 (real (length signal))\<rfloor> \<and>
           brick_wall W haar_filter ''modwt''
             = Inr (map (\<lambda>j. drop (modwt_count 2 j) (W ! j)) [0..<length W])"
proof -
  let ?N = "length signal"
  let ?L = "nat \<lfloor>log 2 (real ?N)\<rfloor>"
  from assms(1) have N: "0 < ?N" by simp
  from nb_level_of_ok [OF N assms(2)]
  have nb: "nb_level_of ?N = Inr ?L" and lo: "2 ^ ?L \<le> ?N" by blast+
  from modwt_arma_haar [OF handle_boundary_periodic assms(2) lo]
  obtain W where W: "modwt_arma signal ''haar'' ?L ''periodic'' = Inr W" "length W = ?L"
    "\<forall>i<?L. length (W ! i) = ?N" by blast
  have "brick_wall W haar_filter ''modwt''
          = Inr (map (\<lambda>j. drop (modwt_count 2 j) (W ! j)) [0..<length W])"
  proof (rule brick_wall_drop)
    fix i assume "i < length W"
    with W(2) have i: "i < ?L" by simp
    then have "(2 :: nat) ^ (i + 1) \<le> 2 ^ ?L" by (intro power_increasing) simp_all
    with lo have "2 ^ (i + 1) \<le> ?N" by linarith
    moreover have "modwt_count 2 i = 2 ^ (i + 1) - 1" by (simp add: modwt_count_def)
    moreover have "(0 :: nat) < 2 ^ (i + 1)" by simp
    ultimately have c: "modwt_count 2 i < ?N" by linarith
    with assms(2) have "modwt_count 2 i < 2 ^ 32" by linarith
    then have "trim_count ''modwt'' 2 i = Inr (modwt_count 2 i)"
      by (intro trim_count_modwt_nat) simp_all
    moreover from W(3) i have "length (W ! i) = ?N" by blast
    ultimately show "trim_count ''modwt'' (filt_L haar_filter) i = Inr (modwt_count 2 i)
        \<and> modwt_count 2 i < length (W ! i)"
      using c by (simp add: haar_L)
  qed
  with nb W(1,2) show ?thesis by blast
qed

text \<open>
  Claim C5.  For a non-empty signal of length \<open>N\<close> (within the range of the source's
  \<open>unsigned int n_ts\<close>) and the Haar filter, the level count is \<open>floor(log2 N)\<close>, the
  largest \<open>nb\<close> with \<open>2^nb \<le> N\<close>; the MODWT is run with \<open>nb\<close> levels and periodic boundary
  and succeeds; trimming succeeds and drops the first \<open>2^(j+1) - 1\<close> coefficients of level
  \<open>j\<close> (the MODWT count for the filter length 2); the eta3 matrix is computed from the
  trimmed levels at \<open>p = 0.025\<close>; the scales are \<open>2^j\<close> for \<open>j = 1..nb\<close>.  Only the Gaussian
  part depends on \<open>compute_v\<close>; for \<open>no\<close> (any value other than \<open>full\<close> and \<open>diag\<close>) the
  Gaussian bounds are not-a-number throughout and \<open>V\<close> is the identity matrix.
\<close>

theorem wavelet_variance_arma_pipeline:
  fixes signal :: "real list"
  assumes "signal \<noteq> []" "length signal < 2 ^ 32"
  shows "\<exists>nb W B vmod.
      nb = nat \<lfloor>log 2 (real (length signal))\<rfloor> \<and>
      2 ^ nb \<le> length signal \<and> length signal < 2 ^ (nb + 1) \<and>
      modwt_arma signal ''haar'' nb ''periodic'' = Inr W \<and>
      brick_wall W haar_filter ''modwt'' = Inr B \<and>
      B = map (\<lambda>j. drop (2 ^ (j + 1) - 1) (W ! j)) [0..<nb] \<and>
      wave_variance qchisq B ''eta3'' (25 / 1000) = Inr vmod \<and> length vmod = nb \<and>
      wavelet_variance_arma qchisq qnorm signal ''haar'' compute_v =
        bindE (gauss_part qnorm (25 / 1000) compute_v nb W (map fst vmod)) (\<lambda>(V1, up, dw).
          Inr \<lparr>variance = map fst vmod, low = map (\<lambda>r. fst (snd r)) vmod,
               high = map (\<lambda>r. snd (snd r)) vmod,
               scales = map (\<lambda>j. 2 ^ j) [1..<nb + 1],
               V = V1, up_gauss = up, dw_gauss = dw\<rparr>) \<and>
      (compute_v \<noteq> ''full'' \<and> compute_v \<noteq> ''diag'' \<longrightarrow>
         wavelet_variance_arma qchisq qnorm signal ''haar'' compute_v =
           Inr \<lparr>variance = map fst vmod, low = map (\<lambda>r. fst (snd r)) vmod,
                high = map (\<lambda>r. snd (snd r)) vmod,
                scales = map (\<lambda>j. 2 ^ j) [1..<nb + 1],
                V = map (\<lambda>i. map (\<lambda>k. if i = k then Val 1 else Val 0) [0..<nb]) [0..<nb],
                up_gauss = replicate nb NaN, dw_gauss = replicate nb NaN\<rparr>)"
proof -
  let ?N = "length signal"
  let ?nb = "nat \<lfloor>log 2 (real ?N)\<rfloor>"
  from assms(1) have N: "0 < ?N" by simp
  from nb_level_of_ok [OF N assms(2)]
  have nb: "nb_level_of ?N = Inr ?nb" and lo: "2 ^ ?nb \<le> ?N" and hi: "?N < 2 ^ (?nb + 1)"
    by blast+
  from orchestrator_pipeline [OF assms] obtain W where
    W: "modwt_arma signal ''haar'' ?nb ''periodic'' = Inr W" "length W = ?nb"
       "brick_wall W haar_filter ''modwt''
          = Inr (map (\<lambda>j. drop (modwt_count 2 j) (W ! j)) [0..<length W])"
    by blast
  define B where "B = map (\<lambda>j. drop (2 ^ (j + 1) - 1) (W ! j)) [0..<?nb]"
  have bw: "brick_wall W haar_filter ''modwt'' = Inr B"
    using W(2,3) by (simp add: B_def modwt_count_def)
  define vmod where
    "vmod = map (\<lambda>i. eta3_row qchisq (25 / 1000) (level_y (B ! i)) (real (length (B ! i))) i)
              [0..<length B]"
  have wv: "wave_variance qchisq B ''eta3'' (25 / 1000) = Inr vmod"
    unfolding vmod_def by (rule wave_variance_rows)
  have lv: "length vmod = ?nb" by (simp add: vmod_def B_def)
  have sf: "select_filter ''haar'' = Inr haar_filter" by (simp add: select_filter_def)
  have main: "wavelet_variance_arma qchisq qnorm signal ''haar'' compute_v =
        bindE (gauss_part qnorm (25 / 1000) compute_v ?nb W (map fst vmod)) (\<lambda>(V1, up, dw).
          Inr \<lparr>variance = map fst vmod, low = map (\<lambda>r. fst (snd r)) vmod,
               high = map (\<lambda>r. snd (snd r)) vmod,
               scales = map (\<lambda>j. 2 ^ j) [1..<?nb + 1],
               V = V1, up_gauss = up, dw_gauss = dw\<rparr>)"
    unfolding wavelet_variance_arma_def Let_def
    by (simp only: nb W(1) bw wv bindE_Inr sf scales_shift)
  have no: "compute_v \<noteq> ''full'' \<and> compute_v \<noteq> ''diag'' \<longrightarrow>
         wavelet_variance_arma qchisq qnorm signal ''haar'' compute_v =
           Inr \<lparr>variance = map fst vmod, low = map (\<lambda>r. fst (snd r)) vmod,
                high = map (\<lambda>r. snd (snd r)) vmod,
                scales = map (\<lambda>j. 2 ^ j) [1..<?nb + 1],
                V = map (\<lambda>i. map (\<lambda>k. if i = k then Val 1 else Val 0) [0..<?nb]) [0..<?nb],
                up_gauss = replicate ?nb NaN, dw_gauss = replicate ?nb NaN\<rparr>"
  proof
    assume "compute_v \<noteq> ''full'' \<and> compute_v \<noteq> ''diag''"
    then have "gauss_part qnorm (25 / 1000) compute_v ?nb W (map fst vmod)
      = Inr (diagmat (replicate ?nb (Val 1)), replicate ?nb NaN, replicate ?nb NaN)"
      by (intro gauss_part_no) simp_all
    then show "wavelet_variance_arma qchisq qnorm signal ''haar'' compute_v =
           Inr \<lparr>variance = map fst vmod, low = map (\<lambda>r. fst (snd r)) vmod,
                high = map (\<lambda>r. snd (snd r)) vmod,
                scales = map (\<lambda>j. 2 ^ j) [1..<?nb + 1],
                V = map (\<lambda>i. map (\<lambda>k. if i = k then Val 1 else Val 0) [0..<?nb]) [0..<?nb],
                up_gauss = replicate ?nb NaN, dw_gauss = replicate ?nb NaN\<rparr>"
      unfolding main by (simp only: bindE_Inr prod.case diagmat_ones)
  qed
  from lo hi W(1) bw B_def wv lv main no show ?thesis by blast
qed

theorem wavelet_variance_arma_pipeline_witness:
  "\<exists>res. wavelet_variance_arma (\<lambda>q df. Val 1) (\<lambda>q. Val 2) [1, 2, 3, 4] ''haar'' ''no'' = Inr res \<and>
         scales res = [2, 4] \<and> length (variance res) = 2 \<and>
         V res = [[Val 1, Val 0], [Val 0, Val 1]] \<and>
         up_gauss res = [NaN, NaN] \<and> dw_gauss res = [NaN, NaN]"
proof -
  have a: "[1, 2, 3, 4 :: real] \<noteq> []" by simp
  have b: "length [1, 2, 3, 4 :: real] < 2 ^ 32" by simp
  have "\<lfloor>log (real (2 :: nat)) (real (4 :: nat))\<rfloor> = int 2"
    by (rule floor_log_nat_eq_if) simp_all
  then have l: "nat \<lfloor>log 2 (real (length [1, 2, 3, 4 :: real]))\<rfloor> = 2" by simp
  have c: "''no'' \<noteq> ''full'' \<and> ''no'' \<noteq> ''diag''" by simp
  from wavelet_variance_arma_pipeline [OF a b, of "\<lambda>q df. Val 1" "\<lambda>q. Val 2" "''no''"]
  obtain nb and vmod :: "(dbl \<times> dbl \<times> dbl) list" where
    n: "nb = nat \<lfloor>log 2 (real (length [1, 2, 3, 4 :: real]))\<rfloor>" and
    lv: "length vmod = nb" and
    r: "''no'' \<noteq> ''full'' \<and> ''no'' \<noteq> ''diag'' \<longrightarrow>
     wavelet_variance_arma (\<lambda>q df. Val 1) (\<lambda>q. Val 2) [1, 2, 3, 4] ''haar'' ''no'' =
           Inr \<lparr>variance = map fst vmod, low = map (\<lambda>r. fst (snd r)) vmod,
                high = map (\<lambda>r. snd (snd r)) vmod,
                scales = map (\<lambda>j. 2 ^ j) [1..<nb + 1],
                V = map (\<lambda>i. map (\<lambda>k. if i = k then Val 1 else Val 0) [0..<nb]) [0..<nb],
                up_gauss = replicate nb NaN, dw_gauss = replicate nb NaN\<rparr>"
    by (elim exE conjE) (rule that; assumption)
  from n l have nb2: "nb = 2" by (rule trans)
  from r c have "wavelet_variance_arma (\<lambda>q df. Val 1) (\<lambda>q. Val 2) [1, 2, 3, 4] ''haar'' ''no'' =
           Inr \<lparr>variance = map fst vmod, low = map (\<lambda>r. fst (snd r)) vmod,
                high = map (\<lambda>r. snd (snd r)) vmod,
                scales = map (\<lambda>j. 2 ^ j) [1..<nb + 1],
                V = map (\<lambda>i. map (\<lambda>k. if i = k then Val 1 else Val 0) [0..<nb]) [0..<nb],
                up_gauss = replicate nb NaN, dw_gauss = replicate nb NaN\<rparr>"
    by (rule mp)
  with lv show ?thesis unfolding nb2 by (simp add: upt_rec numeral_2_eq_2)
qed

end
